theory Spec2Isabelle
  imports Complex_Main "HOL-Library.Multiset" "HOL-Library.Monad_Syntax"
begin

section \<open>Domain model (src/domain/models.py, src/domain/errors.py)\<close>

text \<open>
  The scenario aggregate of the endpoint selection facilitator, as the pydantic models
  declare it. Python numbers are modelled by their exact values: an \<open>int\<close> field is an
  \<^typ>\<open>int\<close>, a \<open>float\<close> is a \<^typ>\<open>rat\<close> (no rounding, no overflow). A criterion's
  weight is declared \<open>int\<close>, but the sensitivity analysis stores a \<open>float\<close> there
  through \<open>model_copy\<close>, which does not validate; the records are therefore polymorphic
  in the weight type \<open>'w\<close>, used at \<^typ>\<open>int\<close> for stored scenarios and at \<^typ>\<open>rat\<close>
  for the derived copy of the sensitivity analysis. Strings are \<^typ>\<open>string\<close>, and a
  \<open>datetime\<close> is a number of microseconds.
\<close>

datatype error = ValidationError | StateError | NotFoundError | LockedError | IOError

type_synonym datetime = nat

record anchors =
  hi :: string
  lo :: string

record 'w criterion =
  c_id :: string
  c_name :: string
  weight :: 'w
  c_anchors :: anchors
  active :: bool

record opt =
  o_id :: string
  o_name :: string
  o_notes :: "string option"

record score =
  optionId :: string
  criterionId :: string
  raw :: int
  rationale :: "string option"

text \<open>
  The \<open>details\<close> of an audit event are declared \<open>dict[str, Any]\<close>. The values of the
  model are the JSON values (\<open>None\<close>, booleans, integers, finite floats, strings, lists,
  dicts with string keys, in insertion order) and, beyond them, tuples: a tuple is a
  Python value that is not a JSON value. Other Python objects are not modelled.
\<close>

datatype pyvalue =
    JNull
  | JBool bool
  | JInt int
  | JFloat rat
  | JStr string
  | JList "pyvalue list"
  | JObj "(string \<times> pyvalue) list"
  | PTuple "pyvalue list"

record audit_event =
  ts :: datetime
  actor :: string
  ev_type :: string
  details :: "(string \<times> pyvalue) list"

datatype rationale_policy = Required | Optional | Skippable

datatype flow_default = ByCriterion | ByOption

record settings =
  rationalePolicy :: rationale_policy
  flowDefault :: flow_default
  sensitivityStep :: rat

record 'w scenario =
  s_id :: string
  title :: string
  createdAt :: datetime
  modifiedAt :: datetime
  weightsLocked :: bool
  criteria :: "'w criterion list"
  options :: "opt list"
  scores :: "score list"
  s_settings :: settings
  audit :: "audit_event list"

text \<open>
  The field constraints of the models: \<open>weight: int = Field(..., ge=0)\<close> and
  \<open>raw: int = Field(..., ge=1, le=5)\<close>, checked whenever a \<open>Criterion\<close> or a \<open>Score\<close> is
  constructed or validated.
\<close>

definition valid_criterion :: "('w::linordered_idom) criterion \<Rightarrow> bool" where
  "valid_criterion c \<longleftrightarrow> 0 \<le> weight c"

definition valid_score :: "score \<Rightarrow> bool" where
  "valid_score sc \<longleftrightarrow> 1 \<le> raw sc \<and> raw sc \<le> 5"

definition valid_scenario :: "('w::linordered_idom) scenario \<Rightarrow> bool" where
  "valid_scenario s \<longleftrightarrow> list_all valid_criterion (criteria s) \<and> list_all valid_score (scores s)"

section \<open>Weighted totals (ScoringService.totals, AnalysisService.\_calculate\_totals)\<close>

text \<open>
  \<open>weights = {c.id: c.weight for c in scenario.criteria}\<close>: a dict comprehension, a later
  criterion with the same id overwrites an earlier one.
\<close>

definition weights_map :: "'w criterion list \<Rightarrow> (string \<rightharpoonup> 'w)" where
  "weights_map cs = fold (\<lambda>c m. m(c_id c \<mapsto> weight c)) cs Map.empty"

text \<open>\<open>weights.get(score.criterionId, 0)\<close>\<close>

definition weights_get :: "(string \<rightharpoonup> ('w::zero)) \<Rightarrow> string \<Rightarrow> 'w" where
  "weights_get m k = (case m k of None \<Rightarrow> 0 | Some w \<Rightarrow> w)"

text \<open>\<open>max_possible = sum(c.weight * 5 for c in scenario.criteria)\<close>\<close>

definition max_possible :: "('w::linordered_idom) criterion list \<Rightarrow> 'w" where
  "max_possible cs = sum_list (map (\<lambda>c. weight c * 5) cs)"

text \<open>
  The inner loop over \<open>scenario.scores\<close>, accumulating \<open>option\_total += score.raw * weight\<close>
  for the scores of one option.
\<close>

definition option_total :: "(string \<rightharpoonup> ('w::linordered_idom)) \<Rightarrow> score list \<Rightarrow> string \<Rightarrow> 'w" where
  "option_total w scs oid =
     fold (\<lambda>sc acc. if optionId sc = oid then acc + of_int (raw sc) * weights_get w (criterionId sc) else acc)
       scs 0"

record 'w totals_entry =
  total :: 'w
  normalized :: rat

text \<open>
  \<open>normalized = (option\_total / max\_possible * 100) if max\_possible > 0 else 0.0\<close>. The
  division is Python's true division, which converts its operands to \<open>float\<close>; the
  conversion is the parameter \<open>to_float\<close> (\<^term>\<open>rat_of_int\<close> on an \<open>int\<close>, the identity
  on a \<open>float\<close>).
\<close>

definition normalize :: "('w \<Rightarrow> rat) \<Rightarrow> ('w::linordered_idom) \<Rightarrow> 'w \<Rightarrow> rat" where
  "normalize to_float t mp = (if mp > 0 then to_float t / to_float mp * 100 else 0)"

text \<open>ScoringService.totals: the outer loop over \<open>scenario.options\<close> fills the result dict.\<close>

definition totals :: "('w \<Rightarrow> rat) \<Rightarrow> ('w::linordered_idom) scenario \<Rightarrow> (string \<rightharpoonup> 'w totals_entry)" where
  "totals to_float s =
     (let weights = weights_map (criteria s);
          mp = max_possible (criteria s)
      in fold (\<lambda>option ts.
                 let t = option_total weights (scores s) (o_id option)
                 in ts(o_id option \<mapsto> \<lparr>total = t, normalized = normalize to_float t mp\<rparr>))
           (options s) Map.empty)"

text \<open>AnalysisService.\_calculate\_totals: the same computation, written a second time in the source.\<close>

definition calculate_totals :: "('w \<Rightarrow> rat) \<Rightarrow> ('w::linordered_idom) scenario \<Rightarrow> (string \<rightharpoonup> 'w totals_entry)" where
  "calculate_totals to_float s =
     (let weights = weights_map (criteria s);
          mp = max_possible (criteria s)
      in fold (\<lambda>option ts.
                 let t = option_total weights (scores s) (o_id option)
                 in ts(o_id option \<mapsto> \<lparr>total = t, normalized = normalize to_float t mp\<rparr>))
           (options s) Map.empty)"

text \<open>
  The specification's reading of a total: the matching criterion of a score is the
  criterion carrying the score's criterion id (the last one, should an id occur twice),
  and a score whose criterion id matches no criterion contributes 0.
\<close>

definition matching_weight :: "('w::zero) criterion list \<Rightarrow> string \<Rightarrow> 'w" where
  "matching_weight cs k = (case find (\<lambda>c. c_id c = k) (rev cs) of None \<Rightarrow> 0 | Some c \<Rightarrow> weight c)"

definition spec_total :: "('w::linordered_idom) scenario \<Rightarrow> string \<Rightarrow> 'w" where
  "spec_total s oid =
     (\<Sum>sc\<leftarrow>filter (\<lambda>sc. optionId sc = oid) (scores s). of_int (raw sc) * matching_weight (criteria s) (criterionId sc))"

definition spec_max_possible :: "('w::linordered_idom) scenario \<Rightarrow> 'w" where
  "spec_max_possible s = (\<Sum>c\<leftarrow>criteria s. weight c * 5)"

text \<open>
  The scenario of the specification's worked example: criteria of weight 10 and 5, options
  A and B, A scored 5 and 5, B scored 1 and 1.
\<close>

definition example_scenario :: "int scenario" where
  "example_scenario =
     \<lparr>s_id = ''demo'', title = ''Demo'', createdAt = 0, modifiedAt = 0, weightsLocked = False,
      criteria = [\<lparr>c_id = ''c1'', c_name = ''First'', weight = 10, c_anchors = \<lparr>hi = ''high'', lo = ''low''\<rparr>, active = True\<rparr>,
                  \<lparr>c_id = ''c2'', c_name = ''Second'', weight = 5, c_anchors = \<lparr>hi = ''high'', lo = ''low''\<rparr>, active = True\<rparr>],
      options = [\<lparr>o_id = ''A'', o_name = ''Option A'', o_notes = None\<rparr>,
                 \<lparr>o_id = ''B'', o_name = ''Option B'', o_notes = None\<rparr>],
      scores = [\<lparr>optionId = ''A'', criterionId = ''c1'', raw = 5, rationale = None\<rparr>,
                \<lparr>optionId = ''A'', criterionId = ''c2'', raw = 5, rationale = None\<rparr>,
                \<lparr>optionId = ''B'', criterionId = ''c1'', raw = 1, rationale = None\<rparr>,
                \<lparr>optionId = ''B'', criterionId = ''c2'', raw = 1, rationale = None\<rparr>],
      s_settings = \<lparr>rationalePolicy = Optional, flowDefault = ByCriterion, sensitivityStep = 1\<rparr>,
      audit = []\<rparr>"

section \<open>Leaderboard (AnalysisService.leaderboard)\<close>

text \<open>
  A leaderboard entry is a dict with the keys \<open>optionId\<close>, \<open>name\<close>, \<open>total\<close> and
  \<open>normalized\<close>; the ranking loop adds the key \<open>rank\<close> to each entry.
\<close>

record 'w entry =
  e_optionId :: string
  e_name :: string
  e_total :: 'w
  e_normalized :: rat

record 'w ranked = "'w entry" +
  rank :: nat

text \<open>
  The first loop: one entry per element of \<open>scenario.options\<close>, in list order, read from
  the totals with the default \<open>{"total": 0, "normalized": 0.0}\<close>.
\<close>

definition build_entries :: "('w \<Rightarrow> rat) \<Rightarrow> ('w::linordered_idom) scenario \<Rightarrow> 'w entry list" where
  "build_entries to_float s =
     (let totals = calculate_totals to_float s
      in map (\<lambda>option.
                let option_data = (case totals (o_id option) of
                                     None \<Rightarrow> \<lparr>total = 0, normalized = 0\<rparr>
                                   | Some d \<Rightarrow> d)
                in \<lparr>e_optionId = o_id option, e_name = o_name option,
                    e_total = total option_data, e_normalized = normalized option_data\<rparr>)
           (options s))"

text \<open>
  \<open>leaderboard.sort(key=lambda x: x["total"], reverse=True)\<close>. Python's sort is stable,
  also with \<open>reverse=True\<close>: entries with equal keys keep their order. That is a stable
  sort by the negated key, which \<^const>\<open>sort_key\<close> (insertion sort) is.
\<close>

definition sort_by_total_desc :: "('w::linordered_idom) entry list \<Rightarrow> 'w entry list" where
  "sort_by_total_desc es = sort_key (\<lambda>x. - e_total x) es"

text \<open>
  The ranking loop, at index \<open>i\<close> with the running \<open>current_rank\<close>; \<open>prev\<close> is
  \<open>leaderboard[i - 1]["total"]\<close>, absent at the first index.
\<close>

fun assign_ranks :: "nat \<Rightarrow> nat \<Rightarrow> 'w option \<Rightarrow> ('w::linorder) entry list \<Rightarrow> 'w ranked list" where
  "assign_ranks i current_rank prev [] = []"
| "assign_ranks i current_rank prev (e # es) =
     (let current_rank' =
            (if i > 0 \<and> (case prev of None \<Rightarrow> False | Some p \<Rightarrow> e_total e < p) then i + 1 else current_rank)
      in \<lparr>e_optionId = e_optionId e, e_name = e_name e, e_total = e_total e,
           e_normalized = e_normalized e, rank = current_rank'\<rparr>
         # assign_ranks (i + 1) current_rank' (Some (e_total e)) es)"

definition leaderboard :: "('w \<Rightarrow> rat) \<Rightarrow> ('w::linordered_idom) scenario \<Rightarrow> 'w ranked list" where
  "leaderboard to_float s = assign_ranks 0 1 None (sort_by_total_desc (build_entries to_float s))"

text \<open>Three options with the totals 50, 50 and 30, the tie example of the specification.\<close>

definition tie_scenario :: "int scenario" where
  "tie_scenario =
     \<lparr>s_id = ''tie'', title = ''Tie'', createdAt = 0, modifiedAt = 0, weightsLocked = False,
      criteria = [\<lparr>c_id = ''c1'', c_name = ''First'', weight = 10, c_anchors = \<lparr>hi = ''high'', lo = ''low''\<rparr>, active = True\<rparr>],
      options = [\<lparr>o_id = ''A'', o_name = ''Option A'', o_notes = None\<rparr>,
                 \<lparr>o_id = ''B'', o_name = ''Option B'', o_notes = None\<rparr>,
                 \<lparr>o_id = ''C'', o_name = ''Option C'', o_notes = None\<rparr>],
      scores = [\<lparr>optionId = ''A'', criterionId = ''c1'', raw = 5, rationale = None\<rparr>,
                \<lparr>optionId = ''C'', criterionId = ''c1'', raw = 3, rationale = None\<rparr>,
                \<lparr>optionId = ''B'', criterionId = ''c1'', raw = 5, rationale = None\<rparr>],
      s_settings = \<lparr>rationalePolicy = Optional, flowDefault = ByCriterion, sensitivityStep = 1\<rparr>,
      audit = []\<rparr>"

text \<open>An entry of the finished leaderboard without its rank.\<close>

definition unrank :: "'w ranked \<Rightarrow> 'w entry" where
  "unrank r = \<lparr>e_optionId = e_optionId r, e_name = e_name r, e_total = e_total r, e_normalized = e_normalized r\<rparr>"

section \<open>Gap to the winner (AnalysisService.delta\_to\_winner)\<close>

text \<open>
  The result is one dict with string keys: the key \<open>"winner"\<close> holds the winning option id
  (or \<open>None\<close>), and the key of every option id holds \<open>{"total": ..., "delta": ...}\<close>. Both
  kinds of value live in the same dict, so an option whose id is \<open>"winner"\<close> overwrites the
  first entry.
\<close>

record 'w gap =
  g_total :: 'w
  g_delta :: 'w

datatype 'w delta_value = WinnerId "string option" | OptionGap "'w gap"

text \<open>\<open>totals.get(option.id, {"total": 0})["total"]\<close>\<close>

definition totals_get_total :: "(string \<rightharpoonup> ('w::zero) totals_entry) \<Rightarrow> string \<Rightarrow> 'w" where
  "totals_get_total tot k = (case tot k of None \<Rightarrow> 0 | Some d \<Rightarrow> total d)"

text \<open>
  The first loop, from \<open>winner_id = None\<close> and \<open>max_total = -1\<close>: an option replaces the
  winner only when its total is strictly greater.
\<close>

definition find_winner ::
  "(string \<rightharpoonup> ('w::linordered_idom) totals_entry) \<Rightarrow> opt list \<Rightarrow> string option \<times> 'w" where
  "find_winner tot os =
     fold (\<lambda>option (winner_id, max_total).
             let option_total = totals_get_total tot (o_id option)
             in if option_total > max_total then (Some (o_id option), option_total)
                else (winner_id, max_total))
       os (None, - 1)"

definition delta_to_winner ::
  "('w \<Rightarrow> rat) \<Rightarrow> ('w::linordered_idom) scenario \<Rightarrow> (string \<rightharpoonup> 'w delta_value)" where
  "delta_to_winner to_float s =
     (let totals = calculate_totals to_float s;
          (winner_id, max_total) = find_winner totals (options s);
          (winner_id, max_total) =
             (if winner_id = None \<and> options s \<noteq> [] then (Some (o_id (hd (options s))), 0)
              else (winner_id, max_total));
          result = [''winner'' \<mapsto> WinnerId winner_id]
      in fold (\<lambda>option r.
                 let option_total = totals_get_total totals (o_id option);
                     delta = max_total - option_total
                 in r(o_id option \<mapsto> OptionGap \<lparr>g_total = option_total, g_delta = delta\<rparr>))
           (options s) result)"

text \<open>The specification's winning total: the maximum of the option totals.\<close>

definition spec_winner_total :: "('w::linordered_idom) scenario \<Rightarrow> 'w" where
  "spec_winner_total s = Max ((\<lambda>op. spec_total s (o_id op)) ` set (options s))"

text \<open>The specification's winner: the first option, in list order, attaining that maximum.\<close>

definition spec_winner :: "('w::linordered_idom) scenario \<Rightarrow> opt option" where
  "spec_winner s = find (\<lambda>op. spec_total s (o_id op) = spec_winner_total s) (options s)"

text \<open>One step of the winner loop, on the pair \<open>(winner_id, max_total)\<close>, for the proofs.\<close>

definition winner_step :: "(string \<Rightarrow> 'w::linorder) \<Rightarrow> opt \<Rightarrow> string option \<times> 'w \<Rightarrow> string option \<times> 'w" where
  "winner_step t option st = (if t (o_id option) > snd st then (Some (o_id option), t (o_id option)) else st)"

section \<open>Policies and audit log (src/domain/policies.py, src/services/audit\_service.py)\<close>

definition can_lock_weights :: "'w scenario \<Rightarrow> bool" where
  "can_lock_weights s \<longleftrightarrow> \<not> weightsLocked s"

definition can_unlock_weights :: "'w scenario \<Rightarrow> bool" where
  "can_unlock_weights s \<longleftrightarrow> weightsLocked s"

text \<open>
  \<open>log_event\<close> stamps the event with \<open>datetime.now()\<close>; the clock reading is the
  parameter \<open>now\<close>. The new audit list is \<open>scenario.audit + [event]\<close>, and the result is a
  copy of the scenario with that list (\<open>model_copy\<close>).
\<close>

definition log_event ::
  "datetime \<Rightarrow> 'w scenario \<Rightarrow> string \<Rightarrow> string \<Rightarrow> (string \<times> pyvalue) list \<Rightarrow> 'w scenario" where
  "log_event now s act event_type dets =
     (let event = \<lparr>ts = now, actor = act, ev_type = event_type, details = dets\<rparr>;
          new_audit = audit s @ [event]
      in s\<lparr>audit := new_audit\<rparr>)"

definition log_score_change ::
  "datetime \<Rightarrow> 'w scenario \<Rightarrow> string \<Rightarrow> string \<Rightarrow> string \<Rightarrow> int option \<Rightarrow> int \<Rightarrow> 'w scenario" where
  "log_score_change now s act option_id criterion_id old_value new_value =
     log_event now s act ''score_changed''
       [(''optionId'', JStr option_id),
        (''criterionId'', JStr criterion_id),
        (''oldValue'', (case old_value of None \<Rightarrow> JNull | Some v \<Rightarrow> JInt v)),
        (''newValue'', JInt new_value)]"

definition log_weight_change ::
  "datetime \<Rightarrow> 'w scenario \<Rightarrow> string \<Rightarrow> string \<Rightarrow> int \<Rightarrow> int \<Rightarrow> string \<Rightarrow> 'w scenario" where
  "log_weight_change now s act criterion_id old_weight new_weight reason =
     log_event now s act ''weight_changed''
       [(''criterionId'', JStr criterion_id),
        (''oldWeight'', JInt old_weight),
        (''newWeight'', JInt new_weight),
        (''reason'', JStr reason)]"

definition log_weights_locked :: "datetime \<Rightarrow> 'w scenario \<Rightarrow> string \<Rightarrow> 'w scenario" where
  "log_weights_locked now s act = log_event now s act ''weights_locked'' []"

definition log_weights_unlocked :: "datetime \<Rightarrow> 'w scenario \<Rightarrow> string \<Rightarrow> string \<Rightarrow> 'w scenario" where
  "log_weights_unlocked now s act reason =
     log_event now s act ''weights_unlocked'' [(''reason'', JStr reason)]"

section \<open>Weights service (src/services/weights\_service.py)\<close>

text \<open>
  Every operation takes the scenario and returns either the raised error or the new
  scenario. The source builds the new scenario from copies (\<open>list(...)\<close>, \<open>model_copy\<close>)
  and never assigns to the scenario it was given.
\<close>

text \<open>
  \<open>for i, c in enumerate(xs): if P(c): ...; break\<close>: the index and the element of the
  first match.
\<close>

fun find_indexed :: "('a \<Rightarrow> bool) \<Rightarrow> nat \<Rightarrow> 'a list \<Rightarrow> (nat \<times> 'a) option" where
  "find_indexed P i [] = None"
| "find_indexed P i (x # xs) = (if P x then Some (i, x) else find_indexed P (Suc i) xs)"

definition lock_weights :: "datetime \<Rightarrow> 'w scenario \<Rightarrow> string \<Rightarrow> error + 'w scenario" where
  "lock_weights now s act =
     (if \<not> can_lock_weights s then Inl StateError
      else let updated = s\<lparr>weightsLocked := True\<rparr>
           in Inr (log_weights_locked now updated act))"

definition unlock_weights :: "datetime \<Rightarrow> 'w scenario \<Rightarrow> string \<Rightarrow> string \<Rightarrow> error + 'w scenario" where
  "unlock_weights now s act reason =
     (if \<not> can_unlock_weights s then Inl StateError
      else let updated = s\<lparr>weightsLocked := False\<rparr>
           in Inr (log_weights_unlocked now updated act reason))"

definition set_weight ::
  "datetime \<Rightarrow> int scenario \<Rightarrow> string \<Rightarrow> int \<Rightarrow> string \<Rightarrow> string \<Rightarrow> error + int scenario" where
  "set_weight now s criterion_id new_weight act reason =
     (if weightsLocked s then Inl LockedError
      else if new_weight < 0 then Inl ValidationError
      else (case find_indexed (\<lambda>c. c_id c = criterion_id) 0 (criteria s) of
              None \<Rightarrow> Inl NotFoundError
            | Some (criterion_index, old_criterion) \<Rightarrow>
                let old_weight = weight old_criterion;
                    updated_criterion = old_criterion\<lparr>weight := new_weight\<rparr>;
                    new_criteria = (criteria s)[criterion_index := updated_criterion];
                    updated = s\<lparr>criteria := new_criteria\<rparr>
                in Inr (log_weight_change now updated act criterion_id old_weight new_weight reason)))"

section \<open>Scoring service (src/services/scoring\_service.py)\<close>

definition set_score ::
  "datetime \<Rightarrow> 'w scenario \<Rightarrow> string \<Rightarrow> string \<Rightarrow> int \<Rightarrow> string \<Rightarrow> string option \<Rightarrow> error + 'w scenario" where
  "set_score now s option_id criterion_id raw_value act rationale_arg =
     (if \<not> (1 \<le> raw_value \<and> raw_value \<le> 5) then Inl ValidationError
      else if \<not> list_ex (\<lambda>op. o_id op = option_id) (options s) then Inl NotFoundError
      else (case find (\<lambda>c. c_id c = criterion_id) (criteria s) of
              None \<Rightarrow> Inl NotFoundError
            | Some criterion \<Rightarrow>
                let existing = find_indexed (\<lambda>sc. optionId sc = option_id \<and> criterionId sc = criterion_id) 0 (scores s);
                    old_value = (case existing of None \<Rightarrow> None | Some (score_index, existing_score) \<Rightarrow> Some (raw existing_score));
                    new_score = \<lparr>optionId = option_id, criterionId = criterion_id, raw = raw_value,
                                 rationale = (case rationale_arg of
                                                Some r \<Rightarrow> Some r
                                              | None \<Rightarrow> (case existing of
                                                           None \<Rightarrow> None
                                                         | Some (score_index, existing_score) \<Rightarrow> rationale existing_score))\<rparr>;
                    new_scores = (case existing of
                                    Some (score_index, existing_score) \<Rightarrow> (scores s)[score_index := new_score]
                                  | None \<Rightarrow> scores s @ [new_score]);
                    updated = s\<lparr>scores := new_scores\<rparr>
                in Inr (log_score_change now updated act option_id criterion_id old_value raw_value)))"

text \<open>
  \<open>set_rationale\<close> checks only the length of the rationale, then updates the rationale of
  the existing score of the pair or appends a new score with the default raw value 3. It
  writes no audit event. \<open>len\<close> counts the characters of the string.
\<close>

definition set_rationale ::
  "'w scenario \<Rightarrow> string \<Rightarrow> string \<Rightarrow> string \<Rightarrow> string \<Rightarrow> error + 'w scenario" where
  "set_rationale s option_id criterion_id rationale_arg act =
     (if rationale_arg \<noteq> [] \<and> length rationale_arg > 500 then Inl ValidationError
      else let existing = find_indexed (\<lambda>sc. optionId sc = option_id \<and> criterionId sc = criterion_id) 0 (scores s);
               new_scores = (case existing of
                               None \<Rightarrow>
                                 scores s @ [\<lparr>optionId = option_id, criterionId = criterion_id, raw = 3,
                                              rationale = Some rationale_arg\<rparr>]
                             | Some (score_index, existing_score) \<Rightarrow>
                                 (scores s)[score_index := existing_score\<lparr>rationale := Some rationale_arg\<rparr>]);
               updated = s\<lparr>scores := new_scores\<rparr>
           in Inr updated)"

text \<open>
  Referential validity of the scores: every score names an option and a criterion of the
  scenario.
\<close>

definition refs_valid :: "'w scenario \<Rightarrow> bool" where
  "refs_valid s \<longleftrightarrow>
     list_all (\<lambda>sc. list_ex (\<lambda>op. o_id op = optionId sc) (options s)
                   \<and> list_ex (\<lambda>c. c_id c = criterionId sc) (criteria s)) (scores s)"

section \<open>JSON repository (src/infra/repositories/json\_repository.py)\<close>

text \<open>
  \<open>str.strip()\<close> removes leading and trailing whitespace. The whitespace characters of
  ASCII are modelled; an id with any other character outside the allowed set is rejected
  by the last check of \<open>_get_file_path\<close> whatever \<open>strip\<close> makes of it.
\<close>

definition is_space :: "char \<Rightarrow> bool" where
  "is_space c \<longleftrightarrow>
     c \<in> set [CHR 0x09, CHR 0x0A, CHR 0x0B, CHR 0x0C, CHR 0x0D, CHR 0x1C, CHR 0x1D, CHR 0x1E, CHR 0x1F, CHR '' '']"

definition strip :: "string \<Rightarrow> string" where
  "strip s = rev (dropWhile is_space (rev (dropWhile is_space s)))"

text \<open>\<open>'..' in scenario_id\<close>: two adjacent dots.\<close>

fun has_dotdot :: "string \<Rightarrow> bool" where
  "has_dotdot (a # b # cs) = ((a = CHR ''.'' \<and> b = CHR ''.'') \<or> has_dotdot (b # cs))"
| "has_dotdot cs = False"

text \<open>The character class \<open>[a-zA-Z0-9_-]\<close>.\<close>

definition id_char :: "char \<Rightarrow> bool" where
  "id_char c \<longleftrightarrow> c \<in> set ''abcdefghijklmnopqrstuvwxyzABCDEFGHIJKLMNOPQRSTUVWXYZ0123456789_-''"

text \<open>
  \<open>re.match(r'^[a-zA-Z0-9_-]+$', scenario_id)\<close>. Without the \<open>MULTILINE\<close> flag, \<open>$\<close>
  matches at the end of the string and also just before a newline that ends the string:
  the pattern matches one or more characters of the class, optionally followed by one
  final newline.
\<close>

definition re_match_id :: "string \<Rightarrow> bool" where
  "re_match_id s \<longleftrightarrow>
     (let body = (if s \<noteq> [] \<and> last s = CHR 0x0A then butlast s else s)
      in body \<noteq> [] \<and> list_all id_char body)"

text \<open>
  A path is the pair of a directory and a file name: \<open>self.base_path / name\<close> is the file
  \<open>name\<close> in the directory \<open>base_path\<close>, whatever the spelling of \<open>base_path\<close>.
\<close>

type_synonym path = "string \<times> string"

text \<open>\<open>_get_file_path\<close>: the three checks in the order of the source, then the path.\<close>

definition get_file_path :: "string \<Rightarrow> string \<Rightarrow> error + path" where
  "get_file_path base_path scenario_id =
     (if scenario_id = [] \<or> strip scenario_id = [] then Inl ValidationError
      else if has_dotdot scenario_id \<or> CHR ''/'' \<in> set scenario_id \<or> CHR 0x5C \<in> set scenario_id
           then Inl ValidationError
      else if \<not> re_match_id scenario_id then Inl ValidationError
      else Inr (base_path, scenario_id @ ''.json''))"

text \<open>
  \<open>Path.with_suffix\<close>: the suffix of a name starts at its last dot, unless that dot is the
  first character of the name; a name without a suffix gets the new suffix appended.
\<close>

definition name_stem :: "string \<Rightarrow> string" where
  "name_stem n =
     (let r = dropWhile (\<lambda>c. c \<noteq> CHR ''.'') (rev n)
      in if length r \<le> 1 then n else rev (tl r))"

definition with_suffix :: "path \<Rightarrow> string \<Rightarrow> path" where
  "with_suffix p suffix = (fst p, name_stem (snd p) @ suffix)"

text \<open>
  Timestamps. A \<open>datetime\<close> of the model is a naive one (\<open>datetime.now()\<close> returns such):
  the fields year, month, day, hour, minute, second and microsecond. The number that
  stands for it is the mixed-radix number of these fields, with 31 day slots in every
  month, so that the order of the numbers is the order of the timestamps; 0 is
  \<open>0001-01-01T00:00:00\<close>. A number is a timestamp when its year is at most 9999 and its
  day exists in its month.
\<close>

definition dt_microsecond :: "datetime \<Rightarrow> nat" where
  "dt_microsecond t = t mod 1000000"

definition dt_second :: "datetime \<Rightarrow> nat" where
  "dt_second t = t div 1000000 mod 60"

definition dt_minute :: "datetime \<Rightarrow> nat" where
  "dt_minute t = t div 1000000 div 60 mod 60"

definition dt_hour :: "datetime \<Rightarrow> nat" where
  "dt_hour t = t div 1000000 div 60 div 60 mod 24"

definition dt_day :: "datetime \<Rightarrow> nat" where
  "dt_day t = t div 1000000 div 60 div 60 div 24 mod 31 + 1"

definition dt_month :: "datetime \<Rightarrow> nat" where
  "dt_month t = t div 1000000 div 60 div 60 div 24 div 31 mod 12 + 1"

definition dt_year :: "datetime \<Rightarrow> nat" where
  "dt_year t = t div 1000000 div 60 div 60 div 24 div 31 div 12 + 1"

definition make_datetime :: "nat \<Rightarrow> nat \<Rightarrow> nat \<Rightarrow> nat \<Rightarrow> nat \<Rightarrow> nat \<Rightarrow> nat \<Rightarrow> datetime" where
  "make_datetime y mo d h mi sec us =
     ((((((y - 1) * 12 + (mo - 1)) * 31 + (d - 1)) * 24 + h) * 60 + mi) * 60 + sec) * 1000000 + us"

definition is_leap :: "nat \<Rightarrow> bool" where
  "is_leap y \<longleftrightarrow> y mod 4 = 0 \<and> (y mod 100 \<noteq> 0 \<or> y mod 400 = 0)"

definition days_in_month :: "nat \<Rightarrow> nat \<Rightarrow> nat" where
  "days_in_month y mo =
     (if mo = 2 then (if is_leap y then 29 else 28)
      else if mo = 4 \<or> mo = 6 \<or> mo = 9 \<or> mo = 11 then 30
      else 31)"

definition valid_datetime :: "datetime \<Rightarrow> bool" where
  "valid_datetime t \<longleftrightarrow> dt_year t \<le> 9999 \<and> dt_day t \<le> days_in_month (dt_year t) (dt_month t)"

text \<open>
  In JSON mode a \<open>datetime\<close> is dumped in ISO 8601 form, \<open>YYYY-MM-DDTHH:MM:SS\<close>, followed
  by \<open>.ffffff\<close> when the microsecond is not 0. \<open>pad k n\<close> is the decimal numeral of \<open>n\<close>
  in \<open>k\<close> digits.
\<close>

definition digit_char :: "nat \<Rightarrow> char" where
  "digit_char d = ''0123456789'' ! d"

fun pad :: "nat \<Rightarrow> nat \<Rightarrow> string" where
  "pad 0 n = []"
| "pad (Suc k) n = pad k (n div 10) @ [digit_char (n mod 10)]"

definition isoformat :: "datetime \<Rightarrow> string" where
  "isoformat t =
     pad 4 (dt_year t) @ ''-'' @ pad 2 (dt_month t) @ ''-'' @ pad 2 (dt_day t) @ ''T''
     @ pad 2 (dt_hour t) @ '':'' @ pad 2 (dt_minute t) @ '':'' @ pad 2 (dt_second t)
     @ (if dt_microsecond t = 0 then [] else ''.'' @ pad 6 (dt_microsecond t))"

text \<open>
  The validation of a \<open>datetime\<close> field parses the string. The parser of the model reads
  the two forms that the dump writes and checks the ranges of the fields; the other
  spellings that the library accepts (a time zone, a space for the \<open>T\<close>, a number of
  seconds) are rejected here, and no document written by \<open>save\<close> has them.
\<close>

definition digit_value :: "char \<Rightarrow> nat option" where
  "digit_value c = (if c \<in> set ''0123456789'' then Some (of_char c - 48) else None)"

fun parse_digits_from :: "nat \<Rightarrow> string \<Rightarrow> nat option" where
  "parse_digits_from acc [] = Some acc"
| "parse_digits_from acc (c # cs) =
     (case digit_value c of None \<Rightarrow> None | Some d \<Rightarrow> parse_digits_from (acc * 10 + d) cs)"

definition parse_digits :: "string \<Rightarrow> nat option" where
  "parse_digits x = (if x = [] then None else parse_digits_from 0 x)"

definition fromisoformat :: "string \<Rightarrow> datetime option" where
  "fromisoformat x =
     (if (length x = 19 \<or> (length x = 26 \<and> x ! 19 = CHR ''.''))
         \<and> x ! 4 = CHR ''-'' \<and> x ! 7 = CHR ''-'' \<and> x ! 10 = CHR ''T''
         \<and> x ! 13 = CHR '':'' \<and> x ! 16 = CHR '':''
      then do { y \<leftarrow> parse_digits (take 4 x);
                mo \<leftarrow> parse_digits (take 2 (drop 5 x));
                d \<leftarrow> parse_digits (take 2 (drop 8 x));
                h \<leftarrow> parse_digits (take 2 (drop 11 x));
                mi \<leftarrow> parse_digits (take 2 (drop 14 x));
                sec \<leftarrow> parse_digits (take 2 (drop 17 x));
                us \<leftarrow> (if length x = 19 then Some 0 else parse_digits (drop 20 x));
                if 1 \<le> y \<and> 1 \<le> mo \<and> mo \<le> 12 \<and> 1 \<le> d \<and> d \<le> days_in_month y mo
                   \<and> h < 24 \<and> mi < 60 \<and> sec < 60
                then Some (make_datetime y mo d h mi sec us)
                else None }
      else None)"

text \<open>
  Serialisation. \<open>save\<close> writes \<open>scenario.model_dump(mode="json")\<close> with \<open>json.dump\<close>, and
  \<open>load\<close> reads the file with \<open>json.load\<close> and rebuilds the scenario with
  \<open>Scenario.model_validate\<close>. A file is modelled by the JSON document it holds; the text
  that \<open>json.dump\<close> writes and \<open>json.load\<close> parses is not modelled. The dump follows the
  declared fields of the models in order. In JSON mode the values of \<open>details\<close> are turned
  into JSON values: a tuple becomes a list, at every depth.
\<close>

fun to_json :: "pyvalue \<Rightarrow> pyvalue" where
  "to_json (JList xs) = JList (map to_json xs)"
| "to_json (PTuple xs) = JList (map to_json xs)"
| "to_json (JObj kvs) = JObj (map (map_prod id to_json) kvs)"
| "to_json v = v"

fun is_json :: "pyvalue \<Rightarrow> bool" where
  "is_json (JList xs) = list_all is_json xs"
| "is_json (PTuple xs) = False"
| "is_json (JObj kvs) = list_all (\<lambda>kv. is_json (snd kv)) kvs"
| "is_json v = True"

definition opt_str_dump :: "string option \<Rightarrow> pyvalue" where
  "opt_str_dump v = (case v of None \<Rightarrow> JNull | Some x \<Rightarrow> JStr x)"

definition anchors_dump :: "anchors \<Rightarrow> pyvalue" where
  "anchors_dump a = JObj [(''hi'', JStr (hi a)), (''lo'', JStr (lo a))]"

definition criterion_dump :: "int criterion \<Rightarrow> pyvalue" where
  "criterion_dump c =
     JObj [(''id'', JStr (c_id c)), (''name'', JStr (c_name c)), (''weight'', JInt (weight c)),
           (''anchors'', anchors_dump (c_anchors c)), (''active'', JBool (active c))]"

definition option_dump :: "opt \<Rightarrow> pyvalue" where
  "option_dump op = JObj [(''id'', JStr (o_id op)), (''name'', JStr (o_name op)), (''notes'', opt_str_dump (o_notes op))]"

definition score_dump :: "score \<Rightarrow> pyvalue" where
  "score_dump sc =
     JObj [(''optionId'', JStr (optionId sc)), (''criterionId'', JStr (criterionId sc)),
           (''raw'', JInt (raw sc)), (''rationale'', opt_str_dump (rationale sc))]"

definition event_dump :: "audit_event \<Rightarrow> pyvalue" where
  "event_dump e =
     JObj [(''ts'', JStr (isoformat (ts e))), (''actor'', JStr (actor e)), (''type'', JStr (ev_type e)),
           (''details'', JObj (map (map_prod id to_json) (details e)))]"

definition policy_dump :: "rationale_policy \<Rightarrow> string" where
  "policy_dump p = (case p of Required \<Rightarrow> ''required'' | Optional \<Rightarrow> ''optional'' | Skippable \<Rightarrow> ''skippable'')"

definition flow_dump :: "flow_default \<Rightarrow> string" where
  "flow_dump f = (case f of ByCriterion \<Rightarrow> ''by_criterion'' | ByOption \<Rightarrow> ''by_option'')"

definition settings_dump :: "settings \<Rightarrow> pyvalue" where
  "settings_dump st =
     JObj [(''rationalePolicy'', JStr (policy_dump (rationalePolicy st))),
           (''flowDefault'', JStr (flow_dump (flowDefault st))),
           (''sensitivityStep'', JFloat (sensitivityStep st))]"

definition scenario_dump :: "int scenario \<Rightarrow> pyvalue" where
  "scenario_dump s =
     JObj [(''id'', JStr (s_id s)), (''title'', JStr (title s)),
           (''createdAt'', JStr (isoformat (createdAt s))), (''modifiedAt'', JStr (isoformat (modifiedAt s))),
           (''weightsLocked'', JBool (weightsLocked s)),
           (''criteria'', JList (map criterion_dump (criteria s))),
           (''options'', JList (map option_dump (options s))),
           (''scores'', JList (map score_dump (scores s))),
           (''settings'', settings_dump (s_settings s)),
           (''audit'', JList (map event_dump (audit s)))]"

text \<open>
  Validation. A required field (\<open>Field(...)\<close>) that is missing is an error; a field with a
  default takes the default. The constraints of the models are checked: \<open>weight >= 0\<close>,
  \<open>1 <= raw <= 5\<close>, the literal values of the settings, \<open>sensitivityStep > 0\<close>. The
  coercions of pydantic's lax mode (a numeric string for an \<open>int\<close>, and the like) are not
  modelled: such a document is rejected here, and no document written by \<open>save\<close> needs
  them. \<open>now\<close> is the clock reading of the \<open>default_factory\<close> of a missing timestamp.
\<close>

definition field_req :: "(string \<times> pyvalue) list \<Rightarrow> string \<Rightarrow> (pyvalue \<Rightarrow> 'a option) \<Rightarrow> 'a option" where
  "field_req kvs k f = (case map_of kvs k of None \<Rightarrow> None | Some v \<Rightarrow> f v)"

definition field_default :: "(string \<times> pyvalue) list \<Rightarrow> string \<Rightarrow> 'a \<Rightarrow> (pyvalue \<Rightarrow> 'a option) \<Rightarrow> 'a option" where
  "field_default kvs k d f = (case map_of kvs k of None \<Rightarrow> Some d | Some v \<Rightarrow> f v)"

fun get_str :: "pyvalue \<Rightarrow> string option" where
  "get_str (JStr x) = Some x"
| "get_str _ = None"

fun get_int :: "pyvalue \<Rightarrow> int option" where
  "get_int (JInt i) = Some i"
| "get_int _ = None"

fun get_bool :: "pyvalue \<Rightarrow> bool option" where
  "get_bool (JBool b) = Some b"
| "get_bool _ = None"

fun get_float :: "pyvalue \<Rightarrow> rat option" where
  "get_float (JFloat r) = Some r"
| "get_float (JInt i) = Some (rat_of_int i)"
| "get_float _ = None"

fun get_opt_str :: "pyvalue \<Rightarrow> string option option" where
  "get_opt_str JNull = Some None"
| "get_opt_str (JStr x) = Some (Some x)"
| "get_opt_str _ = None"

fun get_list :: "(pyvalue \<Rightarrow> 'a option) \<Rightarrow> pyvalue \<Rightarrow> 'a list option" where
  "get_list f (JList xs) = those (map f xs)"
| "get_list f _ = None"

fun get_dict :: "pyvalue \<Rightarrow> (string \<times> pyvalue) list option" where
  "get_dict (JObj kvs) = Some kvs"
| "get_dict _ = None"

definition get_datetime :: "pyvalue \<Rightarrow> datetime option" where
  "get_datetime v = (case get_str v of None \<Rightarrow> None | Some x \<Rightarrow> fromisoformat x)"

definition anchors_validate :: "pyvalue \<Rightarrow> anchors option" where
  "anchors_validate v =
     do { kvs \<leftarrow> get_dict v;
          h \<leftarrow> field_req kvs ''hi'' get_str;
          l \<leftarrow> field_req kvs ''lo'' get_str;
          Some \<lparr>hi = h, lo = l\<rparr> }"

definition criterion_validate :: "pyvalue \<Rightarrow> int criterion option" where
  "criterion_validate v =
     do { kvs \<leftarrow> get_dict v;
          i \<leftarrow> field_req kvs ''id'' get_str;
          n \<leftarrow> field_req kvs ''name'' get_str;
          w \<leftarrow> field_req kvs ''weight'' get_int;
          a \<leftarrow> field_req kvs ''anchors'' anchors_validate;
          act \<leftarrow> field_default kvs ''active'' True get_bool;
          if w < 0 then None
          else Some \<lparr>c_id = i, c_name = n, weight = w, c_anchors = a, active = act\<rparr> }"

definition option_validate :: "pyvalue \<Rightarrow> opt option" where
  "option_validate v =
     do { kvs \<leftarrow> get_dict v;
          i \<leftarrow> field_req kvs ''id'' get_str;
          n \<leftarrow> field_req kvs ''name'' get_str;
          nt \<leftarrow> field_default kvs ''notes'' None get_opt_str;
          Some \<lparr>o_id = i, o_name = n, o_notes = nt\<rparr> }"

definition score_validate :: "pyvalue \<Rightarrow> score option" where
  "score_validate v =
     do { kvs \<leftarrow> get_dict v;
          oi \<leftarrow> field_req kvs ''optionId'' get_str;
          ci \<leftarrow> field_req kvs ''criterionId'' get_str;
          r \<leftarrow> field_req kvs ''raw'' get_int;
          ra \<leftarrow> field_default kvs ''rationale'' None get_opt_str;
          if \<not> (1 \<le> r \<and> r \<le> 5) then None
          else Some \<lparr>optionId = oi, criterionId = ci, raw = r, rationale = ra\<rparr> }"

definition event_validate :: "datetime \<Rightarrow> pyvalue \<Rightarrow> audit_event option" where
  "event_validate now v =
     do { kvs \<leftarrow> get_dict v;
          t \<leftarrow> field_default kvs ''ts'' now get_datetime;
          a \<leftarrow> field_req kvs ''actor'' get_str;
          ty \<leftarrow> field_req kvs ''type'' get_str;
          d \<leftarrow> field_default kvs ''details'' [] get_dict;
          Some \<lparr>ts = t, actor = a, ev_type = ty, details = d\<rparr> }"

definition policy_validate :: "pyvalue \<Rightarrow> rationale_policy option" where
  "policy_validate v =
     (case get_str v of
        None \<Rightarrow> None
      | Some x \<Rightarrow> if x = ''required'' then Some Required
                  else if x = ''optional'' then Some Optional
                  else if x = ''skippable'' then Some Skippable
                  else None)"

definition flow_validate :: "pyvalue \<Rightarrow> flow_default option" where
  "flow_validate v =
     (case get_str v of
        None \<Rightarrow> None
      | Some x \<Rightarrow> if x = ''by_criterion'' then Some ByCriterion
                  else if x = ''by_option'' then Some ByOption
                  else None)"

definition settings_validate :: "pyvalue \<Rightarrow> settings option" where
  "settings_validate v =
     do { kvs \<leftarrow> get_dict v;
          p \<leftarrow> field_default kvs ''rationalePolicy'' Optional policy_validate;
          f \<leftarrow> field_default kvs ''flowDefault'' ByCriterion flow_validate;
          st \<leftarrow> field_default kvs ''sensitivityStep'' 1 get_float;
          if \<not> st > 0 then None
          else Some \<lparr>rationalePolicy = p, flowDefault = f, sensitivityStep = st\<rparr> }"

definition scenario_validate :: "datetime \<Rightarrow> pyvalue \<Rightarrow> int scenario option" where
  "scenario_validate now v =
     do { kvs \<leftarrow> get_dict v;
          i \<leftarrow> field_req kvs ''id'' get_str;
          t \<leftarrow> field_req kvs ''title'' get_str;
          ca \<leftarrow> field_default kvs ''createdAt'' now get_datetime;
          ma \<leftarrow> field_default kvs ''modifiedAt'' now get_datetime;
          wl \<leftarrow> field_default kvs ''weightsLocked'' False get_bool;
          cs \<leftarrow> field_default kvs ''criteria'' [] (get_list criterion_validate);
          os \<leftarrow> field_default kvs ''options'' [] (get_list option_validate);
          scs \<leftarrow> field_default kvs ''scores'' [] (get_list score_validate);
          st \<leftarrow> field_default kvs ''settings''
                  \<lparr>rationalePolicy = Optional, flowDefault = ByCriterion, sensitivityStep = 1\<rparr> settings_validate;
          au \<leftarrow> field_default kvs ''audit'' [] (get_list (event_validate now));
          Some \<lparr>s_id = i, title = t, createdAt = ca, modifiedAt = ma, weightsLocked = wl,
                criteria = cs, options = os, scores = scs, s_settings = st, audit = au\<rparr> }"

text \<open>
  The repository over a file store, a map from paths to file contents: a file holds a JSON
  document or text that is none. What the operating system does with a request is the
  environment \<open>env\<close>: opening and writing a file, renaming, unlinking and reading may
  each fail (a file name longer than the file system allows, a missing permission, a full
  disk).
\<close>

datatype file_content = Document pyvalue | Malformed

type_synonym file_store = "path \<rightharpoonup> file_content"

datatype write_outcome = Written | OpenFailed | WriteFailed

record os_env =
  write_result :: "path \<Rightarrow> write_outcome"
  replace_ok :: "path \<Rightarrow> path \<Rightarrow> bool"
  unlink_ok :: "path \<Rightarrow> bool"
  read_ok :: "path \<Rightarrow> bool"

text \<open>
  The handler of \<open>save\<close>: \<open>if temp_path.exists(): temp_path.unlink()\<close>, then
  \<open>raise IOError\<close>. A failing \<open>unlink\<close> raises an \<open>OSError\<close>, which is the class \<open>IOError\<close>
  names, and leaves the file.
\<close>

definition cleanup :: "os_env \<Rightarrow> file_store \<Rightarrow> path \<Rightarrow> file_store" where
  "cleanup env fs temp_path =
     (if fs temp_path \<noteq> None \<and> unlink_ok env temp_path then fs(temp_path := None) else fs)"

text \<open>
  Every operation resolves the path first, outside any \<open>try\<close>, so a \<open>ValidationError\<close> of
  \<open>_get_file_path\<close> reaches the caller as it is. \<open>save\<close> writes the temporary sibling and
  renames it over the target; a failure of either step runs the handler. An \<open>open\<close> that
  fails leaves the store as it is, a write that fails after the \<open>open\<close> leaves a truncated
  temporary file.
\<close>

definition save :: "os_env \<Rightarrow> string \<Rightarrow> file_store \<Rightarrow> int scenario \<Rightarrow> (error + unit) \<times> file_store" where
  "save env base_path fs s =
     (case get_file_path base_path (s_id s) of
        Inl e \<Rightarrow> (Inl e, fs)
      | Inr file_path \<Rightarrow>
          let temp_path = with_suffix file_path ''.tmp''
          in (case write_result env temp_path of
                OpenFailed \<Rightarrow> (Inl IOError, cleanup env fs temp_path)
              | WriteFailed \<Rightarrow> (Inl IOError, cleanup env (fs(temp_path \<mapsto> Malformed)) temp_path)
              | Written \<Rightarrow>
                  let written = fs(temp_path \<mapsto> Document (scenario_dump s))
                  in if replace_ok env temp_path file_path
                     then (Inr (), (written(temp_path := None))(file_path := written temp_path))
                     else (Inl IOError, cleanup env written temp_path)))"

text \<open>
  \<open>load\<close>: a missing file is \<open>NotFoundError\<close>; a file that cannot be read, that holds no
  JSON document, or whose document fails the validation is \<open>IOError\<close>.
\<close>

definition load :: "os_env \<Rightarrow> datetime \<Rightarrow> string \<Rightarrow> file_store \<Rightarrow> string \<Rightarrow> error + int scenario" where
  "load env now base_path fs scenario_id =
     (case get_file_path base_path scenario_id of
        Inl e \<Rightarrow> Inl e
      | Inr file_path \<Rightarrow>
          (case fs file_path of
             None \<Rightarrow> Inl NotFoundError
           | Some content \<Rightarrow>
               if \<not> read_ok env file_path then Inl IOError
               else (case content of
                       Malformed \<Rightarrow> Inl IOError
                     | Document doc \<Rightarrow>
                         (case scenario_validate now doc of
                            None \<Rightarrow> Inl IOError
                          | Some s \<Rightarrow> Inr s))))"

definition exists_scenario :: "string \<Rightarrow> file_store \<Rightarrow> string \<Rightarrow> error + bool" where
  "exists_scenario base_path fs scenario_id =
     (case get_file_path base_path scenario_id of
        Inl e \<Rightarrow> Inl e
      | Inr file_path \<Rightarrow> Inr (fs file_path \<noteq> None))"

definition delete :: "os_env \<Rightarrow> string \<Rightarrow> file_store \<Rightarrow> string \<Rightarrow> (error + unit) \<times> file_store" where
  "delete env base_path fs scenario_id =
     (case get_file_path base_path scenario_id of
        Inl e \<Rightarrow> (Inl e, fs)
      | Inr file_path \<Rightarrow>
          if fs file_path = None then (Inl NotFoundError, fs)
          else if \<not> unlink_ok env file_path then (Inl IOError, fs)
          else (Inr (), fs(file_path := None)))"

text \<open>An environment in which every request succeeds.\<close>

definition permissive :: os_env where
  "permissive = \<lparr>write_result = (\<lambda>p. Written), replace_ok = (\<lambda>p q. True), unlink_ok = (\<lambda>p. True), read_ok = (\<lambda>p. True)\<rparr>"

text \<open>
  An environment whose file names are limited to 255 characters, the limit of the common
  file systems: a longer name can neither be opened for writing nor be the target of a
  rename.
\<close>

definition name_max :: os_env where
  "name_max = \<lparr>write_result = (\<lambda>p. if length (snd p) \<le> 255 then Written else OpenFailed),
                replace_ok = (\<lambda>p q. length (snd q) \<le> 255), unlink_ok = (\<lambda>p. True), read_ok = (\<lambda>p. True)\<rparr>"

text \<open>
  The worked example with an audit event whose details hold a tuple, as in
  \<open>AuditEvent(actor="alice", type="note", details={"range": (1, 5)})\<close>.
\<close>

definition tuple_scenario :: "int scenario" where
  "tuple_scenario =
     example_scenario\<lparr>audit := [\<lparr>ts = 0, actor = ''alice'', ev_type = ''note'',
                                   details = [(''range'', PTuple [JInt 1, JInt 5])]\<rparr>]\<rparr>"

section \<open>Sensitivity analysis (AnalysisService.sensitivity)\<close>









section \<open>Properties of the totals\<close>

lemma find_append_iff:
  "find P (xs @ ys) = (case find P xs of None \<Rightarrow> find P ys | Some x \<Rightarrow> Some x)"
  by (induction xs) simp_all

lemma weights_map_fold:
  "fold (\<lambda>c m. m(c_id c \<mapsto> weight c)) cs m0 k =
     (case find (\<lambda>c. c_id c = k) (rev cs) of None \<Rightarrow> m0 k | Some c \<Rightarrow> Some (weight c))"
  by (induction cs rule: rev_induct) auto

lemma weights_get_map: "weights_get (weights_map cs) k = matching_weight cs k"
  by (simp add: weights_get_def weights_map_def matching_weight_def weights_map_fold split: option.splits)

lemma option_total_fold:
  "fold (\<lambda>sc acc. if optionId sc = oid then acc + f sc else acc) scs (a::'w::linordered_idom) =
     a + (\<Sum>sc\<leftarrow>filter (\<lambda>sc. optionId sc = oid) scs. f sc)"
  by (induction scs arbitrary: a) (simp_all add: add.assoc)

lemma option_total_spec:
  "option_total (weights_map (criteria s)) (scores s) oid = spec_total s oid"
  by (simp add: option_total_def spec_total_def option_total_fold weights_get_map)

lemma totals_fold:
  "fold (\<lambda>option ts. ts(o_id option \<mapsto> g (o_id option))) os m0 k =
     (if k \<in> o_id ` set os then Some (g k) else m0 k)"
  by (induction os arbitrary: m0) auto

lemma totals_lookup:
  "totals tf s k =
     (if k \<in> o_id ` set (options s)
      then Some \<lparr>total = spec_total s k, normalized = normalize tf (spec_total s k) (spec_max_possible s)\<rparr>
      else None)"
proof -
  define g where "g = (\<lambda>k. \<lparr>total = spec_total s k,
        normalized = normalize tf (spec_total s k) (spec_max_possible s)\<rparr>)"
  have "totals tf s = fold (\<lambda>option ts. ts(o_id option \<mapsto> g (o_id option))) (options s) Map.empty"
    by (simp add: totals_def Let_def option_total_spec g_def max_possible_def spec_max_possible_def)
  then show ?thesis
    unfolding totals_fold by (simp add: g_def)
qed

lemma calculate_totals_eq: "calculate_totals tf s = totals tf s"
  by (simp add: calculate_totals_def totals_def)




section \<open>Properties of the leaderboard\<close>

lemma assign_ranks_length: "length (assign_ranks i c p es) = length es"
  by (induction es arbitrary: i c p) (simp_all add: Let_def)

lemma assign_ranks_unrank: "map unrank (assign_ranks i c p es) = es"
  by (induction es arbitrary: i c p) (simp_all add: Let_def unrank_def)

lemma assign_ranks_total_nth:
  "k < length es \<Longrightarrow> e_total (assign_ranks i c p es ! k) = e_total (es ! k)"
proof -
  assume k: "k < length es"
  have "e_total (assign_ranks i c p es ! k) = e_total (map unrank (assign_ranks i c p es) ! k)"
    using k by (simp add: assign_ranks_length unrank_def)
  then show ?thesis by (simp add: assign_ranks_unrank)
qed

lemma assign_ranks_first:
  "es \<noteq> [] \<Longrightarrow>
     rank (assign_ranks i c p es ! 0) =
       (if i > 0 \<and> (case p of None \<Rightarrow> False | Some q \<Rightarrow> e_total (es ! 0) < q) then i + 1 else c)"
  by (cases es) (auto simp: Let_def split: option.splits)

lemma assign_ranks_step:
  "Suc k < length es \<Longrightarrow>
     rank (assign_ranks i c p es ! Suc k) =
       (if e_total (es ! Suc k) < e_total (es ! k) then i + k + 2 else rank (assign_ranks i c p es ! k))"
proof (induction es arbitrary: i c p k)
  case Nil
  then show ?case by simp
next
  case (Cons e es)
  show ?case
  proof (cases k)
    case 0
    with Cons.prems have ne: "es \<noteq> []" by auto
    show ?thesis
      using 0 assign_ranks_first [OF ne, of "i + 1" _ "Some (e_total e)"]
      by (simp add: Let_def)
  next
    case (Suc k')
    with Cons.prems have "Suc k' < length es" by simp
    from Cons.IH [OF this] show ?thesis
      using Suc by (simp add: Let_def)
  qed
qed

lemma sort_desc_nth_mono:
  "i \<le> j \<Longrightarrow> j < length es \<Longrightarrow>
     e_total (sort_by_total_desc es ! j) \<le> e_total (sort_by_total_desc es ! i)"
proof -
  assume ij: "i \<le> j" and j: "j < length es"
  have "sorted (map (\<lambda>x. - e_total x) (sort_by_total_desc es))"
    by (simp add: sort_by_total_desc_def)
  then have "map (\<lambda>x. - e_total x) (sort_by_total_desc es) ! i \<le> map (\<lambda>x. - e_total x) (sort_by_total_desc es) ! j"
    using ij j by (intro sorted_nth_mono) (simp_all add: sort_by_total_desc_def)
  then show ?thesis
    using ij j by (simp add: sort_by_total_desc_def)
qed

lemma build_entries_length: "length (build_entries tf s) = length (options s)"
  by (simp add: build_entries_def Let_def)

lemma sort_desc_length: "length (sort_by_total_desc es) = length es"
  by (simp add: sort_by_total_desc_def)

lemma leaderboard_length: "length (leaderboard tf s) = length (options s)"
  by (simp add: leaderboard_def assign_ranks_length sort_desc_length build_entries_length)

lemma leaderboard_total_nth:
  "k < length (options s) \<Longrightarrow>
     e_total (leaderboard tf s ! k) = e_total (sort_by_total_desc (build_entries tf s) ! k)"
  unfolding leaderboard_def
  by (rule assign_ranks_total_nth) (simp add: sort_desc_length build_entries_length)

lemma leaderboard_sorted:
  assumes "i \<le> j" and "j < length (options s)"
  shows "e_total (leaderboard tf s ! j) \<le> e_total (leaderboard tf s ! i)"
proof -
  have j: "j < length (build_entries tf s)" using assms by (simp add: build_entries_length)
  have i: "i < length (options s)" using assms by simp
  show ?thesis
    using sort_desc_nth_mono [OF assms(1) j]
    by (simp only: leaderboard_total_nth [OF assms(2)] leaderboard_total_nth [OF i])
qed

lemma leaderboard_rank_first:
  assumes "options s \<noteq> []"
  shows "rank (leaderboard tf s ! 0) = 1"
proof -
  have "length (sort_by_total_desc (build_entries tf s)) \<noteq> 0"
    using assms by (simp add: sort_desc_length build_entries_length)
  then have "sort_by_total_desc (build_entries tf s) \<noteq> []"
    by (simp only: length_0_conv not_False_eq_True)
  from assign_ranks_first [OF this, of 0 1 None] show ?thesis
    by (simp add: leaderboard_def)
qed

lemma leaderboard_rank_step:
  assumes "Suc k < length (options s)"
  shows "rank (leaderboard tf s ! Suc k) =
       (if e_total (leaderboard tf s ! Suc k) < e_total (leaderboard tf s ! k) then k + 2
        else rank (leaderboard tf s ! k))"
proof -
  have len: "Suc k < length (sort_by_total_desc (build_entries tf s))"
    using assms by (simp add: sort_desc_length build_entries_length)
  have k: "k < length (options s)" using assms by simp
  have t1: "e_total (leaderboard tf s ! Suc k) = e_total (sort_by_total_desc (build_entries tf s) ! Suc k)"
    by (rule leaderboard_total_nth [OF assms])
  have t2: "e_total (leaderboard tf s ! k) = e_total (sort_by_total_desc (build_entries tf s) ! k)"
    by (rule leaderboard_total_nth [OF k])
  have "rank (assign_ranks 0 1 None (sort_by_total_desc (build_entries tf s)) ! Suc k) =
       (if e_total (sort_by_total_desc (build_entries tf s) ! Suc k) < e_total (sort_by_total_desc (build_entries tf s) ! k)
        then 0 + k + 2
        else rank (assign_ranks 0 1 None (sort_by_total_desc (build_entries tf s)) ! k))"
    by (rule assign_ranks_step [OF len])
  then show ?thesis
    unfolding t1 t2 by (simp add: leaderboard_def)
qed

lemma leaderboard_rank_tie_le:
  "j \<le> i \<Longrightarrow> i < length (options s) \<Longrightarrow>
     e_total (leaderboard tf s ! i) = e_total (leaderboard tf s ! j) \<Longrightarrow>
     rank (leaderboard tf s ! i) = rank (leaderboard tf s ! j)"
proof (induction i rule: dec_induct)
  case base
  show ?case by simp
next
  case (step n)
  have n: "n < length (options s)" using step.prems by simp
  have a: "e_total (leaderboard tf s ! Suc n) \<le> e_total (leaderboard tf s ! n)"
    by (rule leaderboard_sorted) (use step.prems in simp_all)
  have b: "e_total (leaderboard tf s ! n) \<le> e_total (leaderboard tf s ! j)"
    by (rule leaderboard_sorted [OF step.hyps(1) n])
  from a b step.prems(2) have eq: "e_total (leaderboard tf s ! n) = e_total (leaderboard tf s ! j)"
    by simp
  with step.prems(2) have eq': "e_total (leaderboard tf s ! Suc n) = e_total (leaderboard tf s ! n)"
    by simp
  have "rank (leaderboard tf s ! Suc n) = rank (leaderboard tf s ! n)"
    using leaderboard_rank_step [OF step.prems(1), of tf] eq' by simp
  also have "\<dots> = rank (leaderboard tf s ! j)"
    by (rule step.IH [OF n eq])
  finally show ?case .
qed

lemma leaderboard_rank_tie:
  assumes "i < length (options s)" and "j < length (options s)"
    and "e_total (leaderboard tf s ! i) = e_total (leaderboard tf s ! j)"
  shows "rank (leaderboard tf s ! i) = rank (leaderboard tf s ! j)"
proof (cases "j \<le> i")
  case True
  then show ?thesis using assms(1) assms(3) by (rule leaderboard_rank_tie_le)
next
  case False
  then have "i \<le> j" by simp
  then have "rank (leaderboard tf s ! j) = rank (leaderboard tf s ! i)"
    using assms(2) assms(3) [symmetric] by (rule leaderboard_rank_tie_le)
  then show ?thesis by simp
qed

lemma leaderboard_rank_drop:
  assumes "i < length (options s)"
    and "i = 0 \<or> e_total (leaderboard tf s ! i) < e_total (leaderboard tf s ! (i - 1))"
  shows "rank (leaderboard tf s ! i) = i + 1"
proof (cases i)
  case 0
  with assms(1) have "options s \<noteq> []" by auto
  then show ?thesis using 0 by (simp add: leaderboard_rank_first)
next
  case (Suc k)
  with assms show ?thesis
    using leaderboard_rank_step [of k s tf] by simp
qed

lemma build_entries_fields:
  "map (\<lambda>e. (e_optionId e, e_name e, e_total e)) (build_entries tf s) =
     map (\<lambda>op. (o_id op, o_name op, spec_total s (o_id op))) (options s)"
  by (simp add: build_entries_def Let_def calculate_totals_eq totals_lookup)

lemma leaderboard_unrank:
  "map unrank (leaderboard tf s) = sort_by_total_desc (build_entries tf s)"
  by (simp add: leaderboard_def assign_ranks_unrank)

lemma leaderboard_mset:
  "mset (map (\<lambda>e. (e_optionId e, e_name e, e_total e)) (leaderboard tf s)) =
     mset (map (\<lambda>op. (o_id op, o_name op, spec_total s (o_id op))) (options s))"
proof -
  have "map (\<lambda>e. (e_optionId e, e_name e, e_total e)) (leaderboard tf s) =
        map (\<lambda>e. (e_optionId e, e_name e, e_total e)) (map unrank (leaderboard tf s))"
    by (simp add: unrank_def)
  also have "\<dots> = map (\<lambda>e. (e_optionId e, e_name e, e_total e)) (sort_by_total_desc (build_entries tf s))"
    by (simp only: leaderboard_unrank)
  finally have "mset (map (\<lambda>e. (e_optionId e, e_name e, e_total e)) (leaderboard tf s)) =
        mset (map (\<lambda>e. (e_optionId e, e_name e, e_total e)) (build_entries tf s))"
    by (simp add: sort_by_total_desc_def)
  then show ?thesis
    by (simp only: build_entries_fields)
qed

lemma leaderboard_filter_total:
  "map (\<lambda>e. (e_optionId e, e_name e)) (filter (\<lambda>e. e_total e = t) (leaderboard tf s)) =
     map (\<lambda>op. (o_id op, o_name op)) (filter (\<lambda>op. spec_total s (o_id op) = t) (options s))"
proof -
  let ?f = "\<lambda>e. (e_optionId e, e_name e, e_total e)"
  let ?P = "\<lambda>(tr::string \<times> string \<times> 'a). snd (snd tr) = t"
  let ?g = "\<lambda>(tr::string \<times> string \<times> 'a). (fst tr, fst (snd tr))"
  have "filter (\<lambda>e. e_total e = t) (sort_by_total_desc (build_entries tf s)) =
        filter (\<lambda>e. - e_total e = - t) (sort_key (\<lambda>x. - e_total x) (build_entries tf s))"
    by (simp add: sort_by_total_desc_def)
  also have "\<dots> = filter (\<lambda>e. - e_total e = - t) (build_entries tf s)"
    by (rule sort_key_stable)
  finally have st: "filter (\<lambda>e. e_total e = t) (sort_by_total_desc (build_entries tf s)) =
        filter (\<lambda>e. e_total e = t) (build_entries tf s)"
    by simp
  have "map ?g (filter ?P (map ?f (leaderboard tf s))) =
        map ?g (filter ?P (map ?f (map unrank (leaderboard tf s))))"
    by (simp add: unrank_def comp_def)
  also have "\<dots> = map ?g (map ?f (filter (\<lambda>e. e_total e = t) (sort_by_total_desc (build_entries tf s))))"
    by (simp only: leaderboard_unrank) (simp add: filter_map comp_def)
  also have "\<dots> = map ?g (map ?f (filter (\<lambda>e. e_total e = t) (build_entries tf s)))"
    by (simp only: st)
  also have "\<dots> = map ?g (filter ?P (map ?f (build_entries tf s)))"
    by (simp add: filter_map comp_def)
  also have "\<dots> = map ?g (filter ?P (map (\<lambda>op. (o_id op, o_name op, spec_total s (o_id op))) (options s)))"
    by (simp only: build_entries_fields)
  finally show ?thesis
    by (simp add: filter_map comp_def)
qed

lemma tie_totals: "map e_total (leaderboard rat_of_int tie_scenario) = [50, 50, 30]"
  by code_simp


text \<open>
  Claim C2. The leaderboard has one entry per option (the option's id and name with the
  option's total), sorted by total descending; entries with equal totals carry the same
  rank, and the first entry as well as every entry whose total is strictly below that of
  its predecessor carries its 1-based position as rank. Ranks therefore skip values after
  a block of ties: totals 50, 50, 30 are ranked 1, 1, 3.
\<close>

theorem leaderboard_ranking:
  "length (leaderboard tf s) = length (options s)
   \<and> mset (map (\<lambda>e. (e_optionId e, e_name e, e_total e)) (leaderboard tf s)) =
       mset (map (\<lambda>op. (o_id op, o_name op, spec_total s (o_id op))) (options s))
   \<and> (\<forall>i j. i \<le> j \<and> j < length (options s) \<longrightarrow>
          e_total (leaderboard tf s ! j) \<le> e_total (leaderboard tf s ! i))
   \<and> (\<forall>i j. i < length (options s) \<and> j < length (options s)
            \<and> e_total (leaderboard tf s ! i) = e_total (leaderboard tf s ! j) \<longrightarrow>
          rank (leaderboard tf s ! i) = rank (leaderboard tf s ! j))
   \<and> (\<forall>i. i < length (options s)
            \<and> (i = 0 \<or> e_total (leaderboard tf s ! i) < e_total (leaderboard tf s ! (i - 1))) \<longrightarrow>
          rank (leaderboard tf s ! i) = i + 1)"
proof (intro conjI allI impI)
  show "length (leaderboard tf s) = length (options s)"
    by (rule leaderboard_length)
  show "mset (map (\<lambda>e. (e_optionId e, e_name e, e_total e)) (leaderboard tf s)) =
       mset (map (\<lambda>op. (o_id op, o_name op, spec_total s (o_id op))) (options s))"
    by (rule leaderboard_mset)
next
  fix i j
  assume "i \<le> j \<and> j < length (options s)"
  then show "e_total (leaderboard tf s ! j) \<le> e_total (leaderboard tf s ! i)"
    using leaderboard_sorted [of i j s tf] by simp
next
  fix i j
  assume "i < length (options s) \<and> j < length (options s)
            \<and> e_total (leaderboard tf s ! i) = e_total (leaderboard tf s ! j)"
  then show "rank (leaderboard tf s ! i) = rank (leaderboard tf s ! j)"
    using leaderboard_rank_tie [of i s j tf] by simp
next
  fix i
  assume "i < length (options s)
            \<and> (i = 0 \<or> e_total (leaderboard tf s ! i) < e_total (leaderboard tf s ! (i - 1)))"
  then show "rank (leaderboard tf s ! i) = i + 1"
    using leaderboard_rank_drop [of i s tf] by simp
qed

theorem leaderboard_ranking_witness:
  "map e_total (leaderboard rat_of_int tie_scenario) = [50, 50, 30]
   \<and> map rank (leaderboard rat_of_int tie_scenario) = [1, 1, 3]"
proof -
  note r = leaderboard_ranking [of rat_of_int tie_scenario]
  have n: "length (options tie_scenario) = 3"
    by (simp add: tie_scenario_def)
  have t: "map e_total (leaderboard rat_of_int tie_scenario) = [50, 50, 30]"
    by (rule tie_totals)
  have len: "length (leaderboard rat_of_int tie_scenario) = 3"
    using r n by simp
  have t0: "e_total (leaderboard rat_of_int tie_scenario ! 0) = 50"
    and t1: "e_total (leaderboard rat_of_int tie_scenario ! 1) = 50"
    and t2: "e_total (leaderboard rat_of_int tie_scenario ! 2) = 30"
    using arg_cong [OF t, of "\<lambda>xs. xs ! 0"] arg_cong [OF t, of "\<lambda>xs. xs ! 1"]
      arg_cong [OF t, of "\<lambda>xs. xs ! 2"] len
    by simp_all
  from r have drop: "\<And>i. i < length (options tie_scenario)
            \<and> (i = 0 \<or> e_total (leaderboard rat_of_int tie_scenario ! i)
                          < e_total (leaderboard rat_of_int tie_scenario ! (i - 1))) \<Longrightarrow>
          rank (leaderboard rat_of_int tie_scenario ! i) = i + 1"
    by blast
  from r have tie: "\<And>i j. i < length (options tie_scenario) \<and> j < length (options tie_scenario)
            \<and> e_total (leaderboard rat_of_int tie_scenario ! i) = e_total (leaderboard rat_of_int tie_scenario ! j) \<Longrightarrow>
          rank (leaderboard rat_of_int tie_scenario ! i) = rank (leaderboard rat_of_int tie_scenario ! j)"
    by blast
  have r0: "rank (leaderboard rat_of_int tie_scenario ! 0) = 1"
    using drop [of 0] n by simp
  have r1: "rank (leaderboard rat_of_int tie_scenario ! 1) = 1"
    using tie [of 1 0] n t0 t1 r0 by simp
  have r2: "rank (leaderboard rat_of_int tie_scenario ! 2) = 3"
    using drop [of 2] n t1 t2 by simp
  have "map rank (leaderboard rat_of_int tie_scenario) = [1, 1, 3]"
    using len r0 r1 r2 by (intro nth_equalityI) (auto simp: less_Suc_eq numeral_3_eq_3 numeral_2_eq_2)
  with t show ?thesis by simp
qed

text \<open>
  Claim C10. The leaderboard is a function of the scenario, and its tie order is stable:
  for every total, the entries carrying that total appear in the order in which their
  options stand in the scenario's option list.
\<close>

theorem leaderboard_stable:
  "map (\<lambda>e. (e_optionId e, e_name e)) (filter (\<lambda>e. e_total e = t) (leaderboard tf s)) =
     map (\<lambda>op. (o_id op, o_name op)) (filter (\<lambda>op. spec_total s (o_id op) = t) (options s))"
  by (rule leaderboard_filter_total)

section \<open>Properties of the gap to the winner\<close>

lemma find_Some_set: "find P xs = Some x \<Longrightarrow> x \<in> set xs \<and> P x"
  by (induction xs) (auto split: if_splits)

lemma matching_weight_nonneg:
  assumes "list_all valid_criterion cs"
  shows "0 \<le> matching_weight cs k"
proof (cases "find (\<lambda>c. c_id c = k) (rev cs)")
  case None
  then show ?thesis by (simp add: matching_weight_def)
next
  case (Some c)
  then have "c \<in> set cs"
    using find_Some_set [of "\<lambda>c. c_id c = k" "rev cs" c] by simp
  with assms have "0 \<le> weight c"
    by (simp add: list_all_iff valid_criterion_def)
  with Some show ?thesis by (simp add: matching_weight_def)
qed

lemma spec_total_nonneg:
  assumes "valid_scenario s"
  shows "0 \<le> spec_total s oid"
proof -
  have "0 \<le> of_int (raw sc) * matching_weight (criteria s) (criterionId sc)"
    if "sc \<in> set (scores s)" for sc
  proof -
    from assms that have "1 \<le> raw sc"
      by (auto simp: valid_scenario_def list_all_iff valid_score_def)
    then have "(0::'a) \<le> of_int (raw sc)" by simp
    moreover have "0 \<le> matching_weight (criteria s) (criterionId sc)"
      using assms by (intro matching_weight_nonneg) (simp add: valid_scenario_def)
    ultimately show ?thesis by simp
  qed
  then show ?thesis
    unfolding spec_total_def by (intro sum_list_nonneg) auto
qed

lemma totals_get_total_spec:
  "k \<in> o_id ` set (options s) \<Longrightarrow> totals_get_total (calculate_totals tf s) k = spec_total s k"
  by (simp add: totals_get_total_def calculate_totals_eq totals_lookup)

lemma winner_fold_max_ge: "snd st \<le> snd (fold (winner_step t) os st)"
proof (induction os arbitrary: st)
  case Nil
  show ?case by simp
next
  case (Cons x xs)
  have "snd st \<le> snd (winner_step t x st)" by (auto simp: winner_step_def)
  also have "\<dots> \<le> snd (fold (winner_step t) xs (winner_step t x st))" by (rule Cons.IH)
  finally show ?case by simp
qed

lemma winner_fold_upper:
  "op \<in> set os \<Longrightarrow> t (o_id op) \<le> snd (fold (winner_step t) os st)"
proof (induction os arbitrary: st)
  case Nil
  then show ?case by simp
next
  case (Cons x xs)
  show ?case
  proof (cases "op = x")
    case True
    have "t (o_id x) \<le> snd (winner_step t x st)" by (auto simp: winner_step_def)
    also have "\<dots> \<le> snd (fold (winner_step t) xs (winner_step t x st))" by (rule winner_fold_max_ge)
    finally show ?thesis using True by simp
  next
    case False
    with Cons.prems have "op \<in> set xs" by simp
    from Cons.IH [OF this] show ?thesis by simp
  qed
qed

lemma winner_fold_first:
  "snd st < snd (fold (winner_step t) os st) \<Longrightarrow>
     fst (fold (winner_step t) os st) =
       map_option o_id (find (\<lambda>op. t (o_id op) = snd (fold (winner_step t) os st)) os)
     \<and> find (\<lambda>op. t (o_id op) = snd (fold (winner_step t) os st)) os \<noteq> None"
proof (induction os arbitrary: st)
  case Nil
  then show ?case by simp
next
  case (Cons x xs)
  let ?st' = "winner_step t x st"
  let ?M = "snd (fold (winner_step t) xs ?st')"
  have M: "snd (fold (winner_step t) (x # xs) st) = ?M" by simp
  have ge: "snd ?st' \<le> ?M" by (rule winner_fold_max_ge)
  show ?case
  proof (cases "snd ?st' < ?M")
    case True
    have "t (o_id x) \<le> snd ?st'" by (auto simp: winner_step_def)
    with True have "t (o_id x) \<noteq> ?M" by simp
    with Cons.IH [OF True] show ?thesis by simp
  next
    case False
    with ge have eq: "?M = snd ?st'" by simp
    from Cons.prems have "snd st < snd ?st'" using eq by simp
    then have gt: "t (o_id x) > snd st"
      by (simp add: winner_step_def split: if_splits)
    then have st': "?st' = (Some (o_id x), t (o_id x))" by (auto simp: winner_step_def)
    have keep: "fst (fold (winner_step t) xs st0) = fst st0"
      if "\<not> snd st0 < snd (fold (winner_step t) xs st0)" for st0
      using that
    proof (induction xs arbitrary: st0)
      case Nil
      show ?case by simp
    next
      case (Cons y ys)
      have g1: "snd st0 \<le> snd (winner_step t y st0)" by (auto simp: winner_step_def)
      have g2: "snd (winner_step t y st0) \<le> snd (fold (winner_step t) ys (winner_step t y st0))"
        by (rule winner_fold_max_ge)
      from Cons.prems g1 g2 have a: "\<not> snd (winner_step t y st0) < snd (fold (winner_step t) ys (winner_step t y st0))"
        and b: "\<not> snd st0 < snd (winner_step t y st0)"
        by auto
      from b have "winner_step t y st0 = st0" by (simp add: winner_step_def split: if_splits)
      with Cons.IH [OF a] show ?case by simp
    qed
    have "fst (fold (winner_step t) xs ?st') = fst ?st'"
      by (rule keep) (use False in simp)
    then show ?thesis using st' eq by simp
  qed
qed

lemma find_winner_fold:
  "find_winner tot os = fold (winner_step (totals_get_total tot)) os (None, - 1)"
proof -
  have "(\<lambda>option (winner_id, max_total).
             let option_total = totals_get_total tot (o_id option)
             in if option_total > max_total then (Some (o_id option), option_total)
                else (winner_id, max_total)) = winner_step (totals_get_total tot)"
    by (intro ext) (simp add: winner_step_def Let_def split: prod.splits)
  then show ?thesis by (simp add: find_winner_def)
qed

lemma gap_fold:
  "fold (\<lambda>option r. r(o_id option \<mapsto> g (o_id option))) os r0 k =
     (if k \<in> o_id ` set os then Some (g k) else r0 k)"
  by (induction os arbitrary: r0) auto

lemma find_winner_spec:
  assumes v: "valid_scenario s" and ne: "options s \<noteq> []"
  shows "find_winner (calculate_totals tf s) (options s) = (map_option o_id (spec_winner s), spec_winner_total s)"
    and "spec_winner s \<noteq> None"
proof -
  let ?t = "totals_get_total (calculate_totals tf s)"
  let ?os = "options s"
  let ?r = "fold (winner_step ?t) ?os (None, - 1)"
  let ?M = "snd ?r"
  have t: "?t (o_id op) = spec_total s (o_id op)" if "op \<in> set ?os" for op
    using that by (intro totals_get_total_spec) simp
  have hd: "hd ?os \<in> set ?os" using ne by simp
  have "(0::'a) \<le> ?t (o_id (hd ?os))"
    using t [OF hd] spec_total_nonneg [OF v] by simp
  also have "\<dots> \<le> ?M" by (rule winner_fold_upper [OF hd])
  finally have "snd (None :: string option, - 1 :: 'a) < ?M" by simp
  from winner_fold_first [OF this]
  have fst: "fst ?r = map_option o_id (find (\<lambda>op. ?t (o_id op) = ?M) ?os)"
    and some: "find (\<lambda>op. ?t (o_id op) = ?M) ?os \<noteq> None"
    by simp_all
  have cong: "find (\<lambda>op. ?t (o_id op) = m) ?os = find (\<lambda>op. spec_total s (o_id op) = m) ?os" for m
    by (rule find_cong) (simp_all add: t)
  from some obtain w where w: "find (\<lambda>op. ?t (o_id op) = ?M) ?os = Some w" by auto
  then have win: "w \<in> set ?os" and wt: "?t (o_id w) = ?M"
    using find_Some_set [of "\<lambda>op. ?t (o_id op) = ?M" ?os w] by simp_all
  have M: "spec_winner_total s = ?M"
    unfolding spec_winner_total_def
  proof (rule Max_eqI)
    show "finite ((\<lambda>op. spec_total s (o_id op)) ` set ?os)" by simp
  next
    fix y assume "y \<in> (\<lambda>op. spec_total s (o_id op)) ` set ?os"
    then obtain op where op: "op \<in> set ?os" and y: "y = spec_total s (o_id op)" by auto
    have "?t (o_id op) \<le> ?M" by (rule winner_fold_upper [OF op])
    then show "y \<le> ?M" using y t [OF op] by simp
  next
    have "?M = spec_total s (o_id w)" using wt t [OF win] by simp
    then show "?M \<in> (\<lambda>op. spec_total s (o_id op)) ` set ?os" using win by blast
  qed
  have sw: "spec_winner s = find (\<lambda>op. ?t (o_id op) = ?M) ?os"
    by (simp add: spec_winner_def M cong)
  show "spec_winner s \<noteq> None" using sw some by simp
  have "?r = (fst ?r, snd ?r)" by simp
  then show "find_winner (calculate_totals tf s) (options s) = (map_option o_id (spec_winner s), spec_winner_total s)"
    unfolding find_winner_fold using fst sw M by simp
qed

lemma delta_to_winner_lookup:
  assumes v: "valid_scenario s" and ne: "options s \<noteq> []"
  shows "delta_to_winner tf s k =
     (if k \<in> o_id ` set (options s)
      then Some (OptionGap \<lparr>g_total = spec_total s k, g_delta = spec_winner_total s - spec_total s k\<rparr>)
      else if k = ''winner'' then Some (WinnerId (map_option o_id (spec_winner s)))
      else None)"
proof -
  let ?tot = "calculate_totals tf s"
  define g where "g = (\<lambda>k. OptionGap \<lparr>g_total = totals_get_total ?tot k,
       g_delta = spec_winner_total s - totals_get_total ?tot k\<rparr>)"
  from find_winner_spec(2) [OF v ne] obtain w where w: "spec_winner s = Some w" by auto
  have "delta_to_winner tf s =
      fold (\<lambda>option r. r(o_id option \<mapsto> g (o_id option))) (options s)
        [''winner'' \<mapsto> WinnerId (map_option o_id (spec_winner s))]"
    unfolding delta_to_winner_def Let_def find_winner_spec(1) [OF v ne]
    by (simp add: w g_def)
  then have "delta_to_winner tf s k =
     (if k \<in> o_id ` set (options s) then Some (g k)
      else [''winner'' \<mapsto> WinnerId (map_option o_id (spec_winner s))] k)"
    by (simp only: gap_fold)
  then show ?thesis
    by (auto simp: g_def totals_get_total_spec)
qed

text \<open>
  Claim C3, as amended. For a scenario that satisfies the model constraints (weights at
  least 0, raw scores in 1..5), has at least one option and no option with the id
  \<open>winner\<close> (the key under which the result dict stores the winner), \<open>delta_to_winner\<close>
  names as winner the first option, in list order, whose total is the maximum total, and
  reports for every option its total and \<open>delta = winnerTotal - total\<close>, which is at
  least 0 and satisfies \<open>winnerTotal - delta = total\<close>. The delta is 0 exactly for the
  options whose total equals the winner's total: the winner and every option tied with it.
\<close>

theorem delta_to_winner_spec:
  assumes "valid_scenario s" and "options s \<noteq> []" and "''winner'' \<notin> o_id ` set (options s)"
  shows "(\<exists>w \<in> set (options s). spec_winner s = Some w
            \<and> spec_total s (o_id w) = spec_winner_total s
            \<and> delta_to_winner tf s ''winner'' = Some (WinnerId (Some (o_id w))))
       \<and> (\<forall>op \<in> set (options s). \<exists>d.
            delta_to_winner tf s (o_id op) = Some (OptionGap \<lparr>g_total = spec_total s (o_id op), g_delta = d\<rparr>)
            \<and> d = spec_winner_total s - spec_total s (o_id op)
            \<and> 0 \<le> d
            \<and> spec_winner_total s - d = spec_total s (o_id op)
            \<and> (d = 0 \<longleftrightarrow> spec_total s (o_id op) = spec_winner_total s))"
proof (intro conjI ballI)
  from find_winner_spec(2) [OF assms(1,2)] obtain w where w: "spec_winner s = Some w" by auto
  then have "w \<in> set (options s)" and "spec_total s (o_id w) = spec_winner_total s"
    using find_Some_set [of "\<lambda>op. spec_total s (o_id op) = spec_winner_total s" "options s" w]
    by (simp_all add: spec_winner_def)
  moreover have "delta_to_winner tf s ''winner'' = Some (WinnerId (Some (o_id w)))"
    using assms(3) by (simp add: delta_to_winner_lookup [OF assms(1,2)] w)
  ultimately show "\<exists>w \<in> set (options s). spec_winner s = Some w
            \<and> spec_total s (o_id w) = spec_winner_total s
            \<and> delta_to_winner tf s ''winner'' = Some (WinnerId (Some (o_id w)))"
    using w by blast
next
  fix op assume op: "op \<in> set (options s)"
  have "spec_total s (o_id op) \<le> spec_winner_total s"
    unfolding spec_winner_total_def using op by (intro Max_ge) auto
  then show "\<exists>d. delta_to_winner tf s (o_id op) = Some (OptionGap \<lparr>g_total = spec_total s (o_id op), g_delta = d\<rparr>)
            \<and> d = spec_winner_total s - spec_total s (o_id op)
            \<and> 0 \<le> d
            \<and> spec_winner_total s - d = spec_total s (o_id op)
            \<and> (d = 0 \<longleftrightarrow> spec_total s (o_id op) = spec_winner_total s)"
    using op by (auto simp: delta_to_winner_lookup [OF assms(1,2)])
qed

lemma tie_valid: "valid_scenario tie_scenario"
  by (simp add: tie_scenario_def valid_scenario_def valid_criterion_def valid_score_def)

theorem delta_to_winner_spec_witness:
  "valid_scenario tie_scenario \<and> options tie_scenario \<noteq> []
   \<and> ''winner'' \<notin> o_id ` set (options tie_scenario)
   \<and> delta_to_winner rat_of_int tie_scenario ''winner'' = Some (WinnerId (Some ''A''))
   \<and> delta_to_winner rat_of_int tie_scenario ''C'' = Some (OptionGap \<lparr>g_total = 30, g_delta = 20\<rparr>)"
proof -
  have ne: "options tie_scenario \<noteq> []" and nw: "''winner'' \<notin> o_id ` set (options tie_scenario)"
    by (simp_all add: tie_scenario_def)
  note th = delta_to_winner_spec [OF tie_valid ne nw, of rat_of_int]
  have tA: "spec_total tie_scenario ''A'' = 50" and tB: "spec_total tie_scenario ''B'' = 50"
    and tC: "spec_total tie_scenario ''C'' = 30"
    by (simp_all add: spec_total_def matching_weight_def tie_scenario_def)
  have opts: "options tie_scenario =
      [\<lparr>o_id = ''A'', o_name = ''Option A'', o_notes = None\<rparr>,
       \<lparr>o_id = ''B'', o_name = ''Option B'', o_notes = None\<rparr>,
       \<lparr>o_id = ''C'', o_name = ''Option C'', o_notes = None\<rparr>]"
    by (simp add: tie_scenario_def)
  have M: "spec_winner_total tie_scenario = 50"
    by (simp add: spec_winner_total_def opts tA tB tC)
  have sw: "spec_winner tie_scenario = Some \<lparr>o_id = ''A'', o_name = ''Option A'', o_notes = None\<rparr>"
    by (simp add: spec_winner_def M opts tA)
  have C: "\<lparr>o_id = ''C'', o_name = ''Option C'', o_notes = None\<rparr> \<in> set (options tie_scenario)"
    by (simp add: tie_scenario_def)
  from th have "delta_to_winner rat_of_int tie_scenario ''winner'' = Some (WinnerId (Some ''A''))"
    by (auto simp: sw)
  moreover from th C have "delta_to_winner rat_of_int tie_scenario ''C'' = Some (OptionGap \<lparr>g_total = 30, g_delta = 20\<rparr>)"
    by (fastforce simp: tC M)
  ultimately show ?thesis using tie_valid ne nw by simp
qed

text \<open>
  Claim C3 as stated fails on a tie: with the totals 50, 50 and 30 the winner is A, and B,
  which is not the winner, is reported with delta 0 as well.
\<close>

theorem delta_to_winner_tie_counterexample:
  "valid_scenario tie_scenario \<and> options tie_scenario \<noteq> []
   \<and> delta_to_winner rat_of_int tie_scenario ''winner'' = Some (WinnerId (Some ''A''))
   \<and> delta_to_winner rat_of_int tie_scenario ''B'' = Some (OptionGap \<lparr>g_total = 50, g_delta = 0\<rparr>)
   \<and> ''B'' \<noteq> ''A''"
  by code_simp

section \<open>Properties of the weights and scoring services\<close>

lemma find_indexed_None: "find_indexed P k xs = None \<longleftrightarrow> (\<forall>x\<in>set xs. \<not> P x)"
  by (induction xs arbitrary: k) auto

lemma find_indexed_Some:
  "find_indexed P k xs = Some (i, e) \<Longrightarrow>
     k \<le> i \<and> i - k < length xs \<and> xs ! (i - k) = e \<and> P e \<and> (\<forall>j < i - k. \<not> P (xs ! j))"
proof (induction xs arbitrary: k)
  case Nil
  then show ?case by simp
next
  case (Cons x xs)
  show ?case
  proof (cases "P x")
    case True
    with Cons.prems show ?thesis by simp
  next
    case False
    with Cons.prems have "find_indexed P (Suc k) xs = Some (i, e)" by simp
    from Cons.IH [OF this] have ih: "Suc k \<le> i" "i - Suc k < length xs" "xs ! (i - Suc k) = e" "P e"
      "\<forall>j < i - Suc k. \<not> P (xs ! j)" by simp_all
    from ih(1) have eq: "i - k = Suc (i - Suc k)" by simp
    have "\<not> P ((x # xs) ! j)" if "j < i - k" for j
      using that False ih(5) eq by (cases j) simp_all
    with ih eq show ?thesis by simp
  qed
qed

lemma find_indexed_first:
  "i < length xs \<Longrightarrow> P (xs ! i) \<Longrightarrow> (\<forall>j<i. \<not> P (xs ! j)) \<Longrightarrow>
     find_indexed P k xs = Some (k + i, xs ! i)"
proof (induction xs arbitrary: k i)
  case Nil
  then show ?case by simp
next
  case (Cons x xs)
  show ?case
  proof (cases i)
    case 0
    with Cons.prems show ?thesis by simp
  next
    case (Suc i')
    with Cons.prems have nx: "\<not> P x" by auto
    have "find_indexed P (Suc k) xs = Some (Suc k + i', xs ! i')"
    proof (rule Cons.IH)
      show "i' < length xs" using Cons.prems Suc by simp
      show "P (xs ! i')" using Cons.prems Suc by simp
      show "\<forall>j<i'. \<not> P (xs ! j)"
      proof (intro allI impI)
        fix j assume "j < i'"
        then have "Suc j < i" using Suc by simp
        with Cons.prems(3) have "\<not> P ((x # xs) ! Suc j)" by blast
        then show "\<not> P (xs ! j)" by simp
      qed
    qed
    with nx Suc show ?thesis by simp
  qed
qed

lemma list_ex_image: "list_ex (\<lambda>x. f x = k) xs \<longleftrightarrow> k \<in> f ` set xs"
  by (auto simp: list_ex_iff)

lemma find_None_image: "find (\<lambda>x. f x = k) xs = None \<longleftrightarrow> k \<notin> f ` set xs"
  by (auto simp: find_None_iff)

text \<open>
  Claim C4. On a locked scenario \<open>set_weight\<close> fails with \<open>LockedError\<close>, whatever the
  other arguments. On an unlocked scenario it fails with \<open>ValidationError\<close> when the weight
  is negative, and with \<open>NotFoundError\<close> when the weight is valid and no criterion carries
  the id (the checks run in this order). A failure returns the error alone: no scenario is
  built, so no criterion is changed and no audit event is appended.
\<close>

theorem set_weight_errors:
  "(weightsLocked s \<longrightarrow> set_weight now s cid w act reason = Inl LockedError)
   \<and> (\<not> weightsLocked s \<and> w < 0 \<longrightarrow> set_weight now s cid w act reason = Inl ValidationError)
   \<and> (\<not> weightsLocked s \<and> 0 \<le> w \<and> cid \<notin> c_id ` set (criteria s) \<longrightarrow>
        set_weight now s cid w act reason = Inl NotFoundError)"
proof (intro conjI impI)
  show "set_weight now s cid w act reason = Inl LockedError" if "weightsLocked s"
    using that by (simp add: set_weight_def)
  show "set_weight now s cid w act reason = Inl ValidationError" if "\<not> weightsLocked s \<and> w < 0"
    using that by (simp add: set_weight_def)
  show "set_weight now s cid w act reason = Inl NotFoundError"
    if a: "\<not> weightsLocked s \<and> 0 \<le> w \<and> cid \<notin> c_id ` set (criteria s)"
  proof -
    from a have "\<forall>c\<in>set (criteria s). \<not> c_id c = cid" by auto
    then have "find_indexed (\<lambda>c. c_id c = cid) 0 (criteria s) = None"
      by (simp only: find_indexed_None)
    with a show ?thesis by (simp add: set_weight_def)
  qed
qed

theorem set_weight_errors_witness:
  "weightsLocked (example_scenario\<lparr>weightsLocked := True\<rparr>)
   \<and> set_weight 7 (example_scenario\<lparr>weightsLocked := True\<rparr>) ''c1'' 3 ''alice'' ''why'' = Inl LockedError
   \<and> \<not> weightsLocked example_scenario \<and> (- 1 :: int) < 0
   \<and> set_weight 7 example_scenario ''c1'' (- 1) ''alice'' ''why'' = Inl ValidationError
   \<and> (0 :: int) \<le> 3 \<and> ''zz'' \<notin> c_id ` set (criteria example_scenario)
   \<and> set_weight 7 example_scenario ''zz'' 3 ''alice'' ''why'' = Inl NotFoundError"
proof -
  have l: "weightsLocked (example_scenario\<lparr>weightsLocked := True\<rparr>)" by simp
  have u: "\<not> weightsLocked example_scenario" by (simp add: example_scenario_def)
  have n: "''zz'' \<notin> c_id ` set (criteria example_scenario)" by (simp add: example_scenario_def)
  show ?thesis
    using set_weight_errors [of "example_scenario\<lparr>weightsLocked := True\<rparr>" 7 "''c1''" 3 "''alice''" "''why''"]
      set_weight_errors [of example_scenario 7 "''c1''" "- 1" "''alice''" "''why''"]
      set_weight_errors [of example_scenario 7 "''zz''" 3 "''alice''" "''why''"]
      l u n
    by simp
qed

lemma set_score_ok:
  assumes "1 \<le> r" and "r \<le> 5"
    and "oid \<in> o_id ` set (options s)" and "cid \<in> c_id ` set (criteria s)"
  shows "set_score now s oid cid r act rat =
     Inr (let existing = find_indexed (\<lambda>sc. optionId sc = oid \<and> criterionId sc = cid) 0 (scores s);
              new_score = \<lparr>optionId = oid, criterionId = cid, raw = r,
                           rationale = (case rat of Some x \<Rightarrow> Some x
                                        | None \<Rightarrow> (case existing of None \<Rightarrow> None | Some (i, e) \<Rightarrow> rationale e))\<rparr>
          in s\<lparr>scores := (case existing of Some (i, e) \<Rightarrow> (scores s)[i := new_score] | None \<Rightarrow> scores s @ [new_score]),
                audit := audit s @ [\<lparr>ts = now, actor = act, ev_type = ''score_changed'',
                  details = [(''optionId'', JStr oid), (''criterionId'', JStr cid),
                             (''oldValue'', (case existing of None \<Rightarrow> JNull | Some (i, e) \<Rightarrow> JInt (raw e))),
                             (''newValue'', JInt r)]\<rparr>]\<rparr>)"
proof -
  from assms(4) obtain c where c: "find (\<lambda>c. c_id c = cid) (criteria s) = Some c"
    using find_None_image [of c_id cid "criteria s"] by (cases "find (\<lambda>c. c_id c = cid) (criteria s)") auto
  have o: "list_ex (\<lambda>op. o_id op = oid) (options s)"
    using assms(3) by (simp add: list_ex_image)
  show ?thesis
    using assms(1,2) o c
    by (cases "find_indexed (\<lambda>sc. optionId sc = oid \<and> criterionId sc = cid) 0 (scores s)")
       (auto simp: set_score_def Let_def log_score_change_def log_event_def)
qed

text \<open>
  Claim C5. For a raw value in 1..5 and ids of an existing option and an existing
  criterion, \<open>set_score\<close> succeeds on every scenario, locked or not. If a score for the
  pair exists, the first such score is replaced at its position by the new score, which
  keeps the previous rationale unless a rationale is supplied, and the audit event carries
  the previous raw value as \<open>oldValue\<close>; otherwise the new score is appended and
  \<open>oldValue\<close> is null. In both cases exactly one \<open>score_changed\<close> event with the details
  \<open>optionId\<close>, \<open>criterionId\<close>, \<open>oldValue\<close>, \<open>newValue\<close> is appended to the audit list,
  and nothing but the scores and the audit list changes.
\<close>

theorem set_score_spec:
  assumes "1 \<le> r" and "r \<le> 5"
    and "oid \<in> o_id ` set (options s)" and "cid \<in> c_id ` set (criteria s)"
  shows "\<exists>s'. set_score now s oid cid r act rat = Inr s'
     \<and> s' = s\<lparr>scores := scores s', audit := audit s'\<rparr>
     \<and> (\<forall>i < length (scores s).
           optionId (scores s ! i) = oid \<and> criterionId (scores s ! i) = cid
           \<and> (\<forall>j<i. \<not> (optionId (scores s ! j) = oid \<and> criterionId (scores s ! j) = cid)) \<longrightarrow>
           scores s' = (scores s)[i := \<lparr>optionId = oid, criterionId = cid, raw = r,
                           rationale = (case rat of Some x \<Rightarrow> Some x | None \<Rightarrow> rationale (scores s ! i))\<rparr>]
           \<and> audit s' = audit s @ [\<lparr>ts = now, actor = act, ev_type = ''score_changed'',
                  details = [(''optionId'', JStr oid), (''criterionId'', JStr cid),
                             (''oldValue'', JInt (raw (scores s ! i))), (''newValue'', JInt r)]\<rparr>])
     \<and> ((\<forall>sc\<in>set (scores s). \<not> (optionId sc = oid \<and> criterionId sc = cid)) \<longrightarrow>
           scores s' = scores s @ [\<lparr>optionId = oid, criterionId = cid, raw = r, rationale = rat\<rparr>]
           \<and> audit s' = audit s @ [\<lparr>ts = now, actor = act, ev_type = ''score_changed'',
                  details = [(''optionId'', JStr oid), (''criterionId'', JStr cid),
                             (''oldValue'', JNull), (''newValue'', JInt r)]\<rparr>])"
proof -
  let ?P = "\<lambda>sc. optionId sc = oid \<and> criterionId sc = cid"
  note ok = set_score_ok [OF assms, of now act rat]
  show ?thesis
  proof (cases "find_indexed ?P 0 (scores s)")
    case None
    then have no: "\<forall>sc\<in>set (scores s). \<not> ?P sc" by (simp only: find_indexed_None)
    have no': "\<not> (i < length (scores s) \<and> ?P (scores s ! i))" for i
      using no nth_mem by blast
    show ?thesis
      unfolding ok using None no' by (auto simp: Let_def split: option.splits)
  next
    case (Some p)
    obtain i0 e where p: "p = (i0, e)" by (cases p)
    from find_indexed_Some [OF Some [unfolded p]]
    have i0: "i0 < length (scores s)" "scores s ! i0 = e" "?P e" "\<forall>j<i0. \<not> ?P (scores s ! j)"
      by simp_all
    have uniq: "i = i0" if "i < length (scores s)" "?P (scores s ! i)" "\<forall>j<i. \<not> ?P (scores s ! j)" for i
    proof (rule ccontr)
      assume "i \<noteq> i0"
      then consider "i < i0" | "i0 < i" by linarith
      then show False
      proof cases
        case 1
        with i0(4) that(2) show False by blast
      next
        case 2
        with that(3) i0(2,3) show False by blast
      qed
    qed
    have ex: "\<not> (\<forall>sc\<in>set (scores s). \<not> ?P sc)"
      using i0(1,2,3) nth_mem by blast
    show ?thesis
      unfolding ok using Some p i0(2) ex uniq
      by (auto simp: Let_def split: option.splits)
  qed
qed


theorem set_score_spec_witness:
  "(1::int) \<le> 4 \<and> (4::int) \<le> 5 \<and> ''B'' \<in> o_id ` set (options example_scenario)
   \<and> ''c1'' \<in> c_id ` set (criteria example_scenario)
   \<and> (\<exists>s'. set_score 7 example_scenario ''B'' ''c1'' 4 ''alice'' None = Inr s'
          \<and> scores s' = (scores example_scenario)[2 := \<lparr>optionId = ''B'', criterionId = ''c1'', raw = 4, rationale = None\<rparr>]
          \<and> audit s' = [\<lparr>ts = 7, actor = ''alice'', ev_type = ''score_changed'',
                  details = [(''optionId'', JStr ''B''), (''criterionId'', JStr ''c1''),
                             (''oldValue'', JInt 1), (''newValue'', JInt 4)]\<rparr>])"
proof -
  have o: "''B'' \<in> o_id ` set (options example_scenario)"
    and c: "''c1'' \<in> c_id ` set (criteria example_scenario)"
    by (simp_all add: example_scenario_def)
  have sc: "scores example_scenario =
      [\<lparr>optionId = ''A'', criterionId = ''c1'', raw = 5, rationale = None\<rparr>,
       \<lparr>optionId = ''A'', criterionId = ''c2'', raw = 5, rationale = None\<rparr>,
       \<lparr>optionId = ''B'', criterionId = ''c1'', raw = 1, rationale = None\<rparr>,
       \<lparr>optionId = ''B'', criterionId = ''c2'', raw = 1, rationale = None\<rparr>]"
    and au: "audit example_scenario = []"
    by (simp_all add: example_scenario_def)
  from set_score_spec [OF _ _ o c, of 4 7 "''alice''" None]
  obtain s' where s': "set_score 7 example_scenario ''B'' ''c1'' 4 ''alice'' None = Inr s'"
    and upd: "\<forall>i < length (scores example_scenario).
           optionId (scores example_scenario ! i) = ''B'' \<and> criterionId (scores example_scenario ! i) = ''c1''
           \<and> (\<forall>j<i. \<not> (optionId (scores example_scenario ! j) = ''B'' \<and> criterionId (scores example_scenario ! j) = ''c1'')) \<longrightarrow>
           scores s' = (scores example_scenario)[i := \<lparr>optionId = ''B'', criterionId = ''c1'', raw = 4,
                           rationale = (case None of Some x \<Rightarrow> Some x | None \<Rightarrow> rationale (scores example_scenario ! i))\<rparr>]
           \<and> audit s' = audit example_scenario @ [\<lparr>ts = 7, actor = ''alice'', ev_type = ''score_changed'',
                  details = [(''optionId'', JStr ''B''), (''criterionId'', JStr ''c1''),
                             (''oldValue'', JInt (raw (scores example_scenario ! i))), (''newValue'', JInt 4)]\<rparr>]"
    by auto
  have first: "\<forall>j<2. \<not> (optionId (scores example_scenario ! j) = ''B'' \<and> criterionId (scores example_scenario ! j) = ''c1'')"
    by (simp add: sc less_Suc_eq numeral_2_eq_2)
  from upd [rule_format, of 2] first
  have "scores s' = (scores example_scenario)[2 := \<lparr>optionId = ''B'', criterionId = ''c1'', raw = 4, rationale = None\<rparr>]
      \<and> audit s' = [\<lparr>ts = 7, actor = ''alice'', ev_type = ''score_changed'',
                  details = [(''optionId'', JStr ''B''), (''criterionId'', JStr ''c1''),
                             (''oldValue'', JInt 1), (''newValue'', JInt 4)]\<rparr>]"
    by (simp add: sc au)
  with s' o c show ?thesis by simp
qed

lemma refs_valid_iff:
  "refs_valid s \<longleftrightarrow>
     (\<forall>sc\<in>set (scores s). optionId sc \<in> o_id ` set (options s) \<and> criterionId sc \<in> c_id ` set (criteria s))"
  by (simp add: refs_valid_def list_all_iff list_ex_image)

lemma log_event_fields:
  "scores (log_event now s act ty dets) = scores s"
  "options (log_event now s act ty dets) = options s"
  "criteria (log_event now s act ty dets) = criteria s"
  by (simp_all add: log_event_def)

lemma lock_weights_refs_valid:
  "refs_valid s \<Longrightarrow> lock_weights now s act = Inr s' \<Longrightarrow> refs_valid s'"
  by (auto simp: lock_weights_def log_weights_locked_def log_event_def refs_valid_iff Let_def split: if_splits)

lemma unlock_weights_refs_valid:
  "refs_valid s \<Longrightarrow> unlock_weights now s act reason = Inr s' \<Longrightarrow> refs_valid s'"
  by (auto simp: unlock_weights_def log_weights_unlocked_def log_event_def refs_valid_iff Let_def split: if_splits)

lemma set_weight_refs_valid:
  assumes "refs_valid s" and "set_weight now s cid w act reason = Inr s'"
  shows "refs_valid s'"
proof -
  from assms(2) obtain i c where f: "find_indexed (\<lambda>c. c_id c = cid) 0 (criteria s) = Some (i, c)"
    and s': "s' = log_weight_change now (s\<lparr>criteria := (criteria s)[i := c\<lparr>weight := w\<rparr>]\<rparr>) act cid (weight c) w reason"
    by (auto simp: set_weight_def Let_def split: if_splits option.splits)
  from find_indexed_Some [OF f] have i: "i < length (criteria s)" and c: "criteria s ! i = c" by simp_all
  have "map c_id ((criteria s)[i := c\<lparr>weight := w\<rparr>]) = map c_id (criteria s)"
    using i c by (simp add: map_update list_update_same_conv)
  then have "c_id ` set ((criteria s)[i := c\<lparr>weight := w\<rparr>]) = c_id ` set (criteria s)"
    by (metis set_map)
  with assms(1) show ?thesis
    by (simp add: s' refs_valid_iff log_weight_change_def log_event_fields)
qed

lemma set_score_refs_valid:
  assumes "refs_valid s" and "set_score now s oid cid r act rat = Inr s'"
  shows "refs_valid s'"
proof -
  from assms(2) have r: "1 \<le> r" "r \<le> 5"
    by (auto simp: set_score_def split: if_splits)
  from assms(2) have "list_ex (\<lambda>op. o_id op = oid) (options s)"
    by (auto simp: set_score_def split: if_splits)
  then have o: "oid \<in> o_id ` set (options s)"
    by (simp only: list_ex_image)
  from assms(2) have "find (\<lambda>c. c_id c = cid) (criteria s) \<noteq> None"
    by (auto simp: set_score_def split: if_splits option.splits)
  then have c: "cid \<in> c_id ` set (criteria s)"
    by (simp only: find_None_image) simp
  have sub: "set (scores s') \<subseteq> insert \<lparr>optionId = oid, criterionId = cid, raw = r,
        rationale = (case rat of Some x \<Rightarrow> Some x
           | None \<Rightarrow> (case find_indexed (\<lambda>sc. optionId sc = oid \<and> criterionId sc = cid) 0 (scores s) of
                        None \<Rightarrow> None | Some (i, e) \<Rightarrow> rationale e))\<rparr> (set (scores s))"
    using assms(2) unfolding set_score_ok [OF r o c]
    by (auto simp: Let_def split: option.splits dest: set_update_subset_insert [THEN subsetD])
  have "options s' = options s" "criteria s' = criteria s"
    using assms(2) unfolding set_score_ok [OF r o c]
    by (auto simp: Let_def)
  with sub assms(1) o c show ?thesis
    by (auto simp: refs_valid_iff)
qed

text \<open>
  Claim C6. \<open>lock_weights\<close>, \<open>unlock_weights\<close>, \<open>set_weight\<close> and \<open>set_score\<close> keep the
  scores referentially valid (the four lemmas above). \<open>set_rationale\<close> does not: it never
  looks at the options or the criteria, and for a pair without a score it appends a score
  with raw value 3 under whatever ids it was given. On the example scenario, whose scores
  are all valid, a rationale for the unknown option \<open>ghost\<close> yields a scenario with a
  score of an option that does not exist.
\<close>

theorem set_rationale_dangling:
  "refs_valid example_scenario
   \<and> (case set_rationale example_scenario ''ghost'' ''c1'' ''why'' ''alice'' of
        Inl e \<Rightarrow> False
      | Inr s' \<Rightarrow> \<not> refs_valid s' \<and> audit s' = audit example_scenario
          \<and> scores s' = scores example_scenario @
                [\<lparr>optionId = ''ghost'', criterionId = ''c1'', raw = 3, rationale = Some ''why''\<rparr>])"
  by code_simp

section \<open>Properties of the path resolution\<close>

lemma strip_Nil_iff: "strip s = [] \<longleftrightarrow> list_all is_space s"
proof
  assume a: "strip s = []"
  then have "dropWhile is_space (rev (dropWhile is_space s)) = []" by (simp add: strip_def)
  then have all: "\<forall>x\<in>set (dropWhile is_space s). is_space x"
    by (simp add: dropWhile_eq_Nil_conv)
  have "dropWhile is_space s = []"
  proof (rule ccontr)
    assume ne: "dropWhile is_space s \<noteq> []"
    then have "\<not> is_space (hd (dropWhile is_space s))" by (rule hd_dropWhile)
    moreover have "hd (dropWhile is_space s) \<in> set (dropWhile is_space s)" using ne by simp
    ultimately show False using all by blast
  qed
  then show "list_all is_space s" by (simp add: dropWhile_eq_Nil_conv list_all_iff)
next
  assume "list_all is_space s"
  then show "strip s = []"
    by (auto simp: strip_def list_all_iff dropWhile_eq_Nil_conv dest: set_dropWhileD)
qed

lemma id_char_not_space: "id_char c \<Longrightarrow> \<not> is_space c"
  by (auto simp: id_char_def is_space_def)

lemma id_char_not_sep: "id_char c \<Longrightarrow> c \<noteq> CHR ''.'' \<and> c \<noteq> CHR ''/'' \<and> c \<noteq> CHR 0x5C \<and> c \<noteq> CHR 0x0A"
  by (auto simp: id_char_def)

lemma has_dotdot_set: "has_dotdot s \<Longrightarrow> CHR ''.'' \<in> set s"
  by (induction s rule: has_dotdot.induct) auto

lemma re_match_id_body:
  assumes "re_match_id s"
  shows "s \<noteq> []" and "\<not> list_all is_space s" and "\<not> has_dotdot s"
    and "CHR ''/'' \<notin> set s" and "CHR 0x5C \<notin> set s"
proof -
  define body where "body = (if s \<noteq> [] \<and> last s = CHR 0x0A then butlast s else s)"
  from assms have b: "body \<noteq> []" "list_all id_char body"
    by (simp_all add: re_match_id_def body_def Let_def)
  have s: "s = body \<or> s = body @ [CHR 0x0A]"
  proof (cases "s \<noteq> [] \<and> last s = CHR 0x0A")
    case True
    then have "butlast s @ [last s] = s" by (intro append_butlast_last_id) simp
    with True show ?thesis by (simp add: body_def)
  next
    case False
    then show ?thesis by (auto simp: body_def)
  qed
  from b s show "s \<noteq> []" by auto
  from b have h: "hd body \<in> set s" "id_char (hd body)"
    using s by (auto simp: list_all_iff)
  then show "\<not> list_all is_space s"
    using id_char_not_space by (auto simp: list_all_iff)
  have sep: "c \<noteq> CHR ''.'' \<and> c \<noteq> CHR ''/'' \<and> c \<noteq> CHR 0x5C" if "c \<in> set s" for c
  proof (cases "c \<in> set body")
    case True
    with b(2) have "id_char c" by (simp add: list_all_iff)
    then show ?thesis using id_char_not_sep by blast
  next
    case False
    with s that have "c = CHR 0x0A" by auto
    then show ?thesis by simp
  qed
  from sep show "CHR ''/'' \<notin> set s" and "CHR 0x5C \<notin> set s" by blast+
  from sep show "\<not> has_dotdot s" using has_dotdot_set by blast
qed

lemma get_file_path_iff:
  "get_file_path base sid = (if re_match_id sid then Inr (base, sid @ ''.json'') else Inl ValidationError)"
proof (cases "re_match_id sid")
  case True
  from re_match_id_body [OF True] show ?thesis
    using True by (simp add: get_file_path_def strip_Nil_iff)
next
  case False
  then show ?thesis by (simp add: get_file_path_def)
qed

text \<open>
  An id that is empty, contains a slash, a backslash or two adjacent dots, or is rejected
  by \<open>re.match\<close> does not pass the path resolution, and \<open>save\<close>, \<open>load\<close>, \<open>exists\<close> and
  \<open>delete\<close> then return \<open>ValidationError\<close> whatever the environment and the file store
  are, and leave the store as it is. An id that \<open>re.match\<close> accepts resolves to its file
  in the base directory.
\<close>

lemma path_resolution:
  "(sid = [] \<or> CHR ''/'' \<in> set sid \<or> CHR 0x5C \<in> set sid \<or> has_dotdot sid \<or> \<not> re_match_id sid \<longrightarrow>
      get_file_path base sid = Inl ValidationError
      \<and> save env base fs (s\<lparr>s_id := sid\<rparr>) = (Inl ValidationError, fs)
      \<and> load env now base fs sid = Inl ValidationError
      \<and> exists_scenario base fs sid = Inl ValidationError
      \<and> delete env base fs sid = (Inl ValidationError, fs))
   \<and> (re_match_id sid \<longrightarrow> get_file_path base sid = Inr (base, sid @ ''.json''))"
proof (intro conjI impI)
  assume bad: "sid = [] \<or> CHR ''/'' \<in> set sid \<or> CHR 0x5C \<in> set sid \<or> has_dotdot sid \<or> \<not> re_match_id sid"
  have "\<not> re_match_id sid"
    using bad re_match_id_body [of sid] by blast
  then show p: "get_file_path base sid = Inl ValidationError"
    by (simp add: get_file_path_iff)
  show "save env base fs (s\<lparr>s_id := sid\<rparr>) = (Inl ValidationError, fs)"
    by (simp add: save_def p)
  show "load env now base fs sid = Inl ValidationError"
    by (simp add: load_def p)
  show "exists_scenario base fs sid = Inl ValidationError"
    by (simp add: exists_scenario_def p)
  show "delete env base fs sid = (Inl ValidationError, fs)"
    by (simp add: delete_def p)
next
  assume "re_match_id sid"
  then show "get_file_path base sid = Inr (base, sid @ ''.json'')"
    by (simp add: get_file_path_iff)
qed

text \<open>
  The ids that \<open>re.match\<close> accepts are the non-empty strings over the letters, digits,
  underscore and hyphen, and these strings followed by one newline.
\<close>

lemma re_match_id_iff:
  "re_match_id sid \<longleftrightarrow>
     (sid \<noteq> [] \<and> list_all id_char sid)
     \<or> (\<exists>body. body \<noteq> [] \<and> list_all id_char body \<and> sid = body @ [CHR 0x0A])"
proof
  assume m: "re_match_id sid"
  define body where "body = (if sid \<noteq> [] \<and> last sid = CHR 0x0A then butlast sid else sid)"
  from m have b: "body \<noteq> []" "list_all id_char body"
    by (simp_all add: re_match_id_def body_def Let_def)
  show "(sid \<noteq> [] \<and> list_all id_char sid)
     \<or> (\<exists>body. body \<noteq> [] \<and> list_all id_char body \<and> sid = body @ [CHR 0x0A])"
  proof (cases "sid \<noteq> [] \<and> last sid = CHR 0x0A")
    case True
    then have "butlast sid @ [last sid] = sid" by (intro append_butlast_last_id) simp
    with True b show ?thesis by (auto simp: body_def)
  next
    case False
    with b show ?thesis by (auto simp: body_def)
  qed
next
  assume "(sid \<noteq> [] \<and> list_all id_char sid)
     \<or> (\<exists>body. body \<noteq> [] \<and> list_all id_char body \<and> sid = body @ [CHR 0x0A])"
  then show "re_match_id sid"
  proof
    assume a: "sid \<noteq> [] \<and> list_all id_char sid"
    then have "id_char (last sid)" by (simp add: list_all_iff)
    then have "last sid \<noteq> CHR 0x0A" using id_char_not_sep by blast
    with a show ?thesis by (simp add: re_match_id_def)
  next
    assume "\<exists>body. body \<noteq> [] \<and> list_all id_char body \<and> sid = body @ [CHR 0x0A]"
    then show ?thesis by (auto simp: re_match_id_def)
  qed
qed

text \<open>
  Claim C7. The id \<open>"a\n"\<close>, the letter \<open>a\<close> followed by a newline, has a character
  outside the letters, digits, underscore and hyphen, yet the path resolution accepts it:
  \<open>$\<close> matches before a newline that ends the string. \<open>exists\<close> and \<open>load\<close> go on to the
  file system with the file name \<open>"a\n.json"\<close>, and \<open>save\<close> creates that file. Every
  other id with a character outside the class is rejected (lemmas \<open>path_resolution\<close> and
  \<open>re_match_id_iff\<close>).
\<close>

theorem newline_id_accepted:
  "\<not> list_all id_char [CHR ''a'', CHR 0x0A]
   \<and> get_file_path ''data'' [CHR ''a'', CHR 0x0A] = Inr (''data'', [CHR ''a'', CHR 0x0A] @ ''.json'')
   \<and> exists_scenario ''data'' Map.empty [CHR ''a'', CHR 0x0A] = Inr False
   \<and> load permissive 0 ''data'' Map.empty [CHR ''a'', CHR 0x0A] = Inl NotFoundError
   \<and> fst (save permissive ''data'' Map.empty (example_scenario\<lparr>s_id := [CHR ''a'', CHR 0x0A]\<rparr>)) = Inr ()
   \<and> snd (save permissive ''data'' Map.empty (example_scenario\<lparr>s_id := [CHR ''a'', CHR 0x0A]\<rparr>))
         (''data'', [CHR ''a'', CHR 0x0A] @ ''.json'') \<noteq> None"
proof -
  have m: "re_match_id [CHR ''a'', CHR 0x0A]"
    by (simp add: re_match_id_def id_char_def)
  have n: "\<not> list_all id_char [CHR ''a'', CHR 0x0A]"
    by (simp add: id_char_def)
  have p: "get_file_path ''data'' [CHR ''a'', CHR 0x0A] = Inr (''data'', [CHR ''a'', CHR 0x0A] @ ''.json'')"
    using m by (simp add: get_file_path_iff)
  show ?thesis
    using n p by (simp add: exists_scenario_def load_def save_def permissive_def Let_def)
qed

section \<open>Properties of the persistence\<close>

lemma digit_value_digit_char: "d < 10 \<Longrightarrow> digit_value (digit_char d) = Some d"
proof -
  assume "d < 10"
  then have "d \<in> {0, 1, 2, 3, 4, 5, 6, 7, 8, 9}" by auto
  then show ?thesis
    by (auto simp: digit_value_def digit_char_def)
qed

lemma length_pad: "length (pad k n) = k"
  by (induction k arbitrary: n) simp_all

lemma parse_digits_from_append:
  "parse_digits_from a (xs @ ys) =
     (case parse_digits_from a xs of None \<Rightarrow> None | Some v \<Rightarrow> parse_digits_from v ys)"
  by (induction xs arbitrary: a) (simp_all split: option.splits)

lemma parse_digits_from_pad: "parse_digits_from a (pad k n) = Some (a * 10 ^ k + n mod 10 ^ k)"
proof (induction k arbitrary: n a)
  case 0
  then show ?case by simp
next
  case (Suc k)
  have "n mod (10 * 10 ^ k) = 10 * (n div 10 mod 10 ^ k) + n mod 10"
    by (rule mod_mult2_eq)
  then show ?case
    by (simp add: parse_digits_from_append Suc digit_value_digit_char algebra_simps)
qed

lemma parse_digits_pad: "0 < k \<Longrightarrow> n < 10 ^ k \<Longrightarrow> parse_digits (pad k n) = Some n"
proof -
  assume k: "0 < k" and n: "n < 10 ^ k"
  from k have "pad k n \<noteq> []" using length_pad [of k n] by auto
  then show ?thesis using n by (simp add: parse_digits_def parse_digits_from_pad)
qed

lemma make_datetime_fields:
  "make_datetime (dt_year t) (dt_month t) (dt_day t) (dt_hour t) (dt_minute t) (dt_second t) (dt_microsecond t) = t"
  by (simp add: make_datetime_def dt_year_def dt_month_def dt_day_def dt_hour_def dt_minute_def
      dt_second_def dt_microsecond_def)

lemma isoformat_roundtrip:
  assumes "valid_datetime t"
  shows "fromisoformat (isoformat t) = Some t"
proof -
  define y mo d h mi sec us where "y = dt_year t" and "mo = dt_month t" and "d = dt_day t"
    and "h = dt_hour t" and "mi = dt_minute t" and "sec = dt_second t" and "us = dt_microsecond t"
  note defs = y_def mo_def d_def h_def mi_def sec_def us_def
  have b: "1 \<le> y" "y < 10 ^ 4" "1 \<le> mo" "mo \<le> 12" "1 \<le> d" "d \<le> days_in_month y mo" "d < 10 ^ 2"
    "mo < 10 ^ 2" "h < 24" "mi < 60" "sec < 60" "us < 10 ^ 6" "h < 10 ^ 2" "mi < 10 ^ 2" "sec < 10 ^ 2"
    using assms
    by (simp_all add: defs valid_datetime_def dt_year_def dt_month_def dt_day_def dt_hour_def
        dt_minute_def dt_second_def dt_microsecond_def)
  have mk: "make_datetime y mo d h mi sec us = t"
    unfolding defs by (rule make_datetime_fields)
  define base where "base = pad 4 y @ ''-'' @ pad 2 mo @ ''-'' @ pad 2 d @ ''T''
     @ pad 2 h @ '':'' @ pad 2 mi @ '':'' @ pad 2 sec"
  have iso: "isoformat t = base @ (if us = 0 then [] else ''.'' @ pad 6 us)"
    by (simp add: isoformat_def base_def defs)
  have len: "length base = 19"
    by (simp add: base_def length_pad)
  have p: "parse_digits (pad 4 y) = Some y" "parse_digits (pad 2 mo) = Some mo"
    "parse_digits (pad 2 d) = Some d" "parse_digits (pad 2 h) = Some h"
    "parse_digits (pad 2 mi) = Some mi" "parse_digits (pad 2 sec) = Some sec"
    "parse_digits (pad 6 us) = Some us"
    using b by (simp_all add: parse_digits_pad)
  have parts: "take 4 base = pad 4 y" "take 2 (drop 5 base) = pad 2 mo" "take 2 (drop 8 base) = pad 2 d"
    "take 2 (drop 11 base) = pad 2 h" "take 2 (drop 14 base) = pad 2 mi" "take 2 (drop 17 base) = pad 2 sec"
    "base ! 4 = CHR ''-''" "base ! 7 = CHR ''-''" "base ! 10 = CHR ''T''" "base ! 13 = CHR '':''"
    "base ! 16 = CHR '':''"
    by (simp_all add: base_def length_pad nth_append)
  show ?thesis
  proof (cases "us = 0")
    case True
    with mk have "make_datetime y mo d h mi sec 0 = t" by simp
    with True show ?thesis
      using b by (simp add: iso fromisoformat_def len parts p)
  next
    case False
    define x where "x = base @ ''.'' @ pad 6 us"
    have lx: "length x = 26" by (simp add: x_def len length_pad)
    have px: "take 4 x = pad 4 y" "take 2 (drop 5 x) = pad 2 mo" "take 2 (drop 8 x) = pad 2 d"
    "take 2 (drop 11 x) = pad 2 h" "take 2 (drop 14 x) = pad 2 mi" "take 2 (drop 17 x) = pad 2 sec"
    "x ! 4 = CHR ''-''" "x ! 7 = CHR ''-''" "x ! 10 = CHR ''T''" "x ! 13 = CHR '':''"
    "x ! 16 = CHR '':''" "x ! 19 = CHR ''.''" "drop 20 x = pad 6 us"
      using parts by (simp_all add: x_def len nth_append length_pad)
    have "fromisoformat x = Some t"
      using b by (simp add: fromisoformat_def lx px p mk)
    with False show ?thesis by (simp add: iso x_def)
  qed
qed

lemma to_json_id: "is_json v \<Longrightarrow> to_json v = v"
proof (induction v)
  case (JList xs)
  then show ?case by (simp add: list_all_iff map_idI)
next
  case (JObj kvs)
  have "map (map_prod id to_json) kvs = kvs"
  proof (rule map_idI)
    fix kv assume kv: "kv \<in> set kvs"
    obtain k v where e: "kv = (k, v)" by (cases kv)
    with kv JObj.prems have "is_json v" by (auto simp: list_all_iff)
    moreover have "v \<in> Basic_BNFs.snds kv" using e by simp
    ultimately have "to_json v = v" using JObj.IH kv by blast
    with e show "map_prod id to_json kv = kv" by simp
  qed
  then show ?case by simp
qed simp_all

lemma those_map_roundtrip:
  "(\<forall>x\<in>set xs. f (g x) = Some x) \<Longrightarrow> those (map f (map g xs)) = Some xs"
  by (induction xs) simp_all

lemma anchors_roundtrip: "anchors_validate (anchors_dump a) = Some a"
  by (simp add: anchors_validate_def anchors_dump_def field_req_def)

lemma criterion_roundtrip:
  "valid_criterion c \<Longrightarrow> criterion_validate (criterion_dump c) = Some c"
  by (simp add: criterion_validate_def criterion_dump_def field_req_def field_default_def
      anchors_roundtrip valid_criterion_def)

lemma opt_str_roundtrip: "get_opt_str (opt_str_dump v) = Some v"
  by (cases v) (simp_all add: opt_str_dump_def)

lemma option_roundtrip: "option_validate (option_dump op) = Some op"
  by (simp add: option_validate_def option_dump_def field_req_def field_default_def opt_str_roundtrip)

lemma score_roundtrip:
  "valid_score sc \<Longrightarrow> score_validate (score_dump sc) = Some sc"
  by (simp add: score_validate_def score_dump_def field_req_def field_default_def opt_str_roundtrip
      valid_score_def)

lemma event_roundtrip:
  assumes "valid_datetime (ts e)" and "list_all (\<lambda>kv. is_json (snd kv)) (details e)"
  shows "event_validate now (event_dump e) = Some e"
proof -
  have "map (map_prod id to_json) (details e) = details e"
  proof (rule map_idI)
    fix kv assume "kv \<in> set (details e)"
    with assms(2) have "is_json (snd kv)" by (simp add: list_all_iff)
    then show "map_prod id to_json kv = kv"
      by (cases kv) (simp add: to_json_id)
  qed
  then show ?thesis
    by (simp add: event_validate_def event_dump_def field_req_def field_default_def get_datetime_def
        isoformat_roundtrip [OF assms(1)])
qed

lemma policy_roundtrip: "policy_validate (JStr (policy_dump p)) = Some p"
  by (cases p) (simp_all add: policy_validate_def policy_dump_def)

lemma flow_roundtrip: "flow_validate (JStr (flow_dump f)) = Some f"
  by (cases f) (simp_all add: flow_validate_def flow_dump_def)

lemma settings_roundtrip:
  "0 < sensitivityStep st \<Longrightarrow> settings_validate (settings_dump st) = Some st"
  by (simp add: settings_validate_def settings_dump_def field_default_def policy_roundtrip flow_roundtrip)

lemma scenario_roundtrip:
  assumes "valid_scenario s" and "0 < sensitivityStep (s_settings s)"
    and "valid_datetime (createdAt s)" and "valid_datetime (modifiedAt s)"
    and "list_all (\<lambda>e. valid_datetime (ts e) \<and> list_all (\<lambda>kv. is_json (snd kv)) (details e)) (audit s)"
  shows "scenario_validate now (scenario_dump s) = Some s"
proof -
  have cs: "those (map criterion_validate (map criterion_dump (criteria s))) = Some (criteria s)"
    using assms(1) by (intro those_map_roundtrip) (simp add: valid_scenario_def list_all_iff criterion_roundtrip)
  have os: "those (map option_validate (map option_dump (options s))) = Some (options s)"
    by (intro those_map_roundtrip) (simp add: option_roundtrip)
  have scs: "those (map score_validate (map score_dump (scores s))) = Some (scores s)"
    using assms(1) by (intro those_map_roundtrip) (simp add: valid_scenario_def list_all_iff score_roundtrip)
  have au: "those (map (event_validate now) (map event_dump (audit s))) = Some (audit s)"
    using assms(5) by (intro those_map_roundtrip) (simp add: list_all_iff event_roundtrip)
  show ?thesis
    by (simp del: map_map add: scenario_validate_def scenario_dump_def field_req_def field_default_def
        get_datetime_def cs os scs au settings_roundtrip [OF assms(2)]
        isoformat_roundtrip [OF assms(3)] isoformat_roundtrip [OF assms(4)])
qed

lemma name_stem_json: "sid \<noteq> [] \<Longrightarrow> name_stem (sid @ ''.json'') = sid"
  by (cases "rev sid") (simp_all add: name_stem_def)

text \<open>What \<open>save\<close> does, by the outcome of its two steps.\<close>

lemma save_cases:
  assumes "re_match_id (s_id s)"
  shows "save env base fs s =
     (case write_result env (base, s_id s @ ''.tmp'') of
        OpenFailed \<Rightarrow> (Inl IOError, cleanup env fs (base, s_id s @ ''.tmp''))
      | WriteFailed \<Rightarrow>
          (Inl IOError, cleanup env (fs((base, s_id s @ ''.tmp'') \<mapsto> Malformed)) (base, s_id s @ ''.tmp''))
      | Written \<Rightarrow>
          if replace_ok env (base, s_id s @ ''.tmp'') (base, s_id s @ ''.json'')
          then (Inr (), (fs((base, s_id s @ ''.tmp'') := None))((base, s_id s @ ''.json'') \<mapsto> Document (scenario_dump s)))
          else (Inl IOError,
                cleanup env (fs((base, s_id s @ ''.tmp'') \<mapsto> Document (scenario_dump s))) (base, s_id s @ ''.tmp'')))"
proof -
  from re_match_id_body(1) [OF assms] have ne: "s_id s \<noteq> []" .
  have p: "get_file_path base (s_id s) = Inr (base, s_id s @ ''.json'')"
    using assms by (simp add: get_file_path_iff)
  have t: "with_suffix (base, s_id s @ ''.json'') ''.tmp'' = (base, s_id s @ ''.tmp'')"
    by (simp add: with_suffix_def name_stem_json [OF ne])
  show ?thesis
    by (simp add: save_def p t Let_def split: write_outcome.splits)
qed

lemma save_ok_iff:
  "fst (save env base fs s) = Inr () \<longleftrightarrow>
     re_match_id (s_id s) \<and> write_result env (base, s_id s @ ''.tmp'') = Written
     \<and> replace_ok env (base, s_id s @ ''.tmp'') (base, s_id s @ ''.json'')"
proof (cases "re_match_id (s_id s)")
  case True
  show ?thesis
    using True by (simp add: save_cases [OF True] split: write_outcome.splits)
next
  case False
  then show ?thesis
    by (simp add: save_def get_file_path_iff)
qed

lemma save_ok_store:
  assumes "save env base fs s = (Inr (), fs')"
  shows "fs' (base, s_id s @ ''.json'') = Some (Document (scenario_dump s))"
proof -
  from assms have "fst (save env base fs s) = Inr ()" by simp
  then have m: "re_match_id (s_id s)" and w: "write_result env (base, s_id s @ ''.tmp'') = Written"
    and r: "replace_ok env (base, s_id s @ ''.tmp'') (base, s_id s @ ''.json'')"
    by (simp_all add: save_ok_iff)
  from assms show ?thesis
    by (auto simp: save_cases [OF m] w r)
qed

lemma example_valid: "valid_scenario example_scenario"
  by (simp add: example_scenario_def valid_scenario_def valid_criterion_def valid_score_def)

text \<open>
  Claim C8. Let a scenario satisfy the constraints of the models (weights at least 0, raw
  scores in 1..5, a positive sensitivity step, timestamps that are dates of the calendar)
  and let the details of its audit events hold JSON values only. If \<open>save\<close> succeeds and
  the file it wrote can be read, a following \<open>load\<close> of the same id returns the scenario
  itself: every field, the nested criteria, options, scores, settings and audit events
  included. \<open>save\<close> succeeds exactly when the id passes the path resolution, the
  temporary file is written and it is renamed; otherwise it fails with \<open>ValidationError\<close>
  or \<open>IOError\<close>. \<open>load\<close> of an id that passes the path resolution and whose file is
  absent fails with \<open>NotFoundError\<close>.
\<close>

theorem save_load_roundtrip:
  "(valid_scenario s \<and> 0 < sensitivityStep (s_settings s)
      \<and> valid_datetime (createdAt s) \<and> valid_datetime (modifiedAt s)
      \<and> list_all (\<lambda>e. valid_datetime (ts e) \<and> list_all (\<lambda>kv. is_json (snd kv)) (details e)) (audit s)
      \<and> save env base fs s = (Inr (), fs') \<and> read_ok env (base, s_id s @ ''.json'') \<longrightarrow>
      load env now base fs' (s_id s) = Inr s)
   \<and> (fst (save env base fs s) = Inr () \<longleftrightarrow>
        re_match_id (s_id s) \<and> write_result env (base, s_id s @ ''.tmp'') = Written
        \<and> replace_ok env (base, s_id s @ ''.tmp'') (base, s_id s @ ''.json''))
   \<and> (re_match_id sid \<and> fs (base, sid @ ''.json'') = None \<longrightarrow>
        load env now base fs sid = Inl NotFoundError)"
proof (intro conjI impI)
  assume a: "valid_scenario s \<and> 0 < sensitivityStep (s_settings s)
      \<and> valid_datetime (createdAt s) \<and> valid_datetime (modifiedAt s)
      \<and> list_all (\<lambda>e. valid_datetime (ts e) \<and> list_all (\<lambda>kv. is_json (snd kv)) (details e)) (audit s)
      \<and> save env base fs s = (Inr (), fs') \<and> read_ok env (base, s_id s @ ''.json'')"
  then have sv: "save env base fs s = (Inr (), fs')" by simp
  then have "fst (save env base fs s) = Inr ()" by simp
  then have m: "re_match_id (s_id s)" by (simp add: save_ok_iff)
  have rt: "scenario_validate now (scenario_dump s) = Some s"
    using a by (intro scenario_roundtrip) simp_all
  show "load env now base fs' (s_id s) = Inr s"
    using a m by (simp add: load_def get_file_path_iff save_ok_store [OF sv] rt)
next
  show "fst (save env base fs s) = Inr () \<longleftrightarrow>
        re_match_id (s_id s) \<and> write_result env (base, s_id s @ ''.tmp'') = Written
        \<and> replace_ok env (base, s_id s @ ''.tmp'') (base, s_id s @ ''.json'')"
    by (rule save_ok_iff)
next
  assume "re_match_id sid \<and> fs (base, sid @ ''.json'') = None"
  then show "load env now base fs sid = Inl NotFoundError"
    by (simp add: load_def get_file_path_iff)
qed

theorem save_load_roundtrip_witness:
  "valid_scenario example_scenario \<and> 0 < sensitivityStep (s_settings example_scenario)
   \<and> valid_datetime (createdAt example_scenario) \<and> valid_datetime (modifiedAt example_scenario)
   \<and> list_all (\<lambda>e. valid_datetime (ts e) \<and> list_all (\<lambda>kv. is_json (snd kv)) (details e)) (audit example_scenario)
   \<and> save permissive ''data'' Map.empty example_scenario
       = (Inr (), snd (save permissive ''data'' Map.empty example_scenario))
   \<and> read_ok permissive (''data'', s_id example_scenario @ ''.json'')
   \<and> re_match_id ''demo'' \<and> (Map.empty :: file_store) (''data'', ''demo'' @ ''.json'') = None
   \<and> load permissive 0 ''data'' (snd (save permissive ''data'' Map.empty example_scenario)) ''demo'' = Inr example_scenario
   \<and> load permissive 0 ''data'' Map.empty ''demo'' = Inl NotFoundError"
proof -
  have i: "s_id example_scenario = ''demo''" by (simp add: example_scenario_def)
  have m: "re_match_id ''demo''" by (simp add: re_match_id_def id_char_def)
  have f: "createdAt example_scenario = 0" "modifiedAt example_scenario = 0" "audit example_scenario = []"
    "0 < sensitivityStep (s_settings example_scenario)"
    by (simp_all add: example_scenario_def)
  have v0: "valid_datetime 0"
    by (simp add: valid_datetime_def dt_year_def dt_day_def dt_month_def days_in_month_def)
  have ok: "fst (save permissive ''data'' Map.empty example_scenario) = Inr ()"
    using m by (simp add: save_ok_iff i permissive_def)
  have sv: "save permissive ''data'' Map.empty example_scenario
       = (Inr (), snd (save permissive ''data'' Map.empty example_scenario))"
    using ok by (simp add: prod_eq_iff)
  have r: "read_ok permissive (''data'', s_id example_scenario @ ''.json'')"
    by (simp add: permissive_def)
  show ?thesis
    using save_load_roundtrip [of example_scenario permissive "''data''" Map.empty
        "snd (save permissive ''data'' Map.empty example_scenario)" 0 "''demo''"]
      m f v0 example_valid sv r
    by (simp add: i)
qed

text \<open>
  The claim as it stands fails for a scenario whose audit details hold a tuple: every
  request succeeds, and the loaded scenario holds a list where the saved one holds the
  tuple.
\<close>

theorem save_load_tuple_counterexample:
  "valid_scenario tuple_scenario
   \<and> fst (save permissive ''data'' Map.empty tuple_scenario) = Inr ()
   \<and> load permissive 0 ''data'' (snd (save permissive ''data'' Map.empty tuple_scenario)) ''demo''
       = Inr (tuple_scenario\<lparr>audit := [\<lparr>ts = 0, actor = ''alice'', ev_type = ''note'',
                                           details = [(''range'', JList [JInt 1, JInt 5])]\<rparr>]\<rparr>)
   \<and> load permissive 0 ''data'' (snd (save permissive ''data'' Map.empty tuple_scenario)) ''demo''
       \<noteq> Inr tuple_scenario"
proof -
  have i: "s_id tuple_scenario = ''demo''" by (simp add: tuple_scenario_def example_scenario_def)
  have m: "re_match_id (s_id tuple_scenario)" by (simp add: i re_match_id_def id_char_def)
  have v: "valid_scenario tuple_scenario"
    using example_valid by (simp add: tuple_scenario_def valid_scenario_def)
  have ok: "fst (save permissive ''data'' Map.empty tuple_scenario) = Inr ()"
    using m by (simp add: save_ok_iff permissive_def)
  then have sv: "save permissive ''data'' Map.empty tuple_scenario
       = (Inr (), snd (save permissive ''data'' Map.empty tuple_scenario))"
    by (simp add: prod_eq_iff)
  define loaded where "loaded = tuple_scenario\<lparr>audit := [\<lparr>ts = 0, actor = ''alice'', ev_type = ''note'',
                                           details = [(''range'', JList [JInt 1, JInt 5])]\<rparr>]\<rparr>"
  have d: "scenario_dump tuple_scenario = scenario_dump loaded"
    by (simp add: scenario_dump_def loaded_def tuple_scenario_def event_dump_def)
  have lv: "valid_scenario loaded"
    using v by (simp add: loaded_def valid_scenario_def)
  have v0: "valid_datetime 0"
    by (simp add: valid_datetime_def dt_year_def dt_day_def dt_month_def days_in_month_def)
  have "scenario_validate 0 (scenario_dump loaded) = Some loaded"
    using lv v0 by (intro scenario_roundtrip) (simp_all add: loaded_def tuple_scenario_def example_scenario_def)
  moreover have "snd (save permissive ''data'' Map.empty tuple_scenario) (''data'', ''demo'' @ ''.json'')
      = Some (Document (scenario_dump loaded))"
    using save_ok_store [OF sv] by (simp add: i d)
  moreover have "read_ok permissive (''data'', ''demo'' @ ''.json'')"
    by (simp add: permissive_def)
  moreover have "re_match_id ''demo''"
    using m by (simp add: i)
  ultimately have l: "load permissive 0 ''data'' (snd (save permissive ''data'' Map.empty tuple_scenario)) ''demo'' = Inr loaded"
    by (simp add: load_def get_file_path_iff)
  have ne: "loaded \<noteq> tuple_scenario"
    by (simp add: loaded_def tuple_scenario_def example_scenario_def)
  show ?thesis
    using v ok l ne unfolding loaded_def by simp
qed

text \<open>
  \<open>save\<close> also fails for an id that passes the path resolution when the operating system
  refuses the file: with file names limited to 255 characters, an id of 251 characters
  makes the name of the target file too long. The temporary file is written, the rename
  fails, and the handler removes the temporary file.
\<close>

lemma save_long_name_fails:
  "re_match_id (replicate 251 CHR ''a'')
   \<and> save name_max ''data'' Map.empty (example_scenario\<lparr>s_id := replicate 251 CHR ''a''\<rparr>)
       = (Inl IOError, Map.empty)"
proof -
  have c: "id_char CHR ''a''" by (simp add: id_char_def)
  have m: "re_match_id (replicate 251 CHR ''a'')"
    unfolding re_match_id_iff using c by (auto simp: list_all_iff)
  then have m': "re_match_id (s_id (example_scenario\<lparr>s_id := replicate 251 CHR ''a''\<rparr>))" by simp
  show ?thesis
    using m by (simp add: save_cases [OF m'] name_max_def cleanup_def)
qed

section \<open>Properties of the sensitivity analysis\<close>






















end
